theory Spec2Isabelle
  imports Complex_Main "HOL-Library.Word" "HOL-Library.Multiset"
begin

section \<open>Values, errors and arrays\<close>

text \<open>
  The notebook \<^verbatim>\<open>src/unnamed/part_000\<close> defines three Python classes on top of NumPy and
  PyTorch: \<^verbatim>\<open>ConfusionMatrix\<close>, \<^verbatim>\<open>ConfusionMatrixBasedMetric\<close> and \<^verbatim>\<open>DiceCoefficient\<close>.
  A method \<^verbatim>\<open>C.f\<close> is the function \<open>C_f\<close> here, and \<^verbatim>\<open>C.__init__\<close> is \<open>C_init\<close>. The NumPy
  and PyTorch operations the methods call are modelled by what their documentation says.
  Every exception the code can raise is a value of \<open>error\<close>; an operation that can raise
  returns \<open>error + 'a\<close>.
\<close>

datatype error = IndexError | ValueError | TypeError

text \<open>
  An n-dimensional array: its shape and its elements in row-major order. \<open>is_tensor\<close> tells a
  \<^verbatim>\<open>torch.Tensor\<close> from a \<^verbatim>\<open>numpy.ndarray\<close> (the code asks \<^verbatim>\<open>torch.is_tensor\<close>). Elements are
  numbers; labels and probabilities alike are held as rationals (the notebook's ground truth
  is a float tensor holding 0.0, 1.0 and 2.0).
\<close>

record ndarray =
  is_tensor :: bool
  shape :: "nat list"
  data :: "rat list"

definition wf_array :: "ndarray \<Rightarrow> bool" where
  "wf_array a = (length (data a) = prod_list (shape a))"

text \<open>\<^verbatim>\<open>x.detach().cpu().numpy()\<close>: the same shape and elements, as a NumPy array.\<close>

definition to_numpy :: "ndarray \<Rightarrow> ndarray" where
  "to_numpy a = (if is_tensor a then a\<lparr>is_tensor := False\<rparr> else a)"

text \<open>All multi-indices of a shape, in row-major order, and the offset of a multi-index.\<close>

fun indices :: "nat list \<Rightarrow> nat list list" where
  "indices [] = [[]]"
| "indices (d # ds) = concat (map (\<lambda>i. map ((#) i) (indices ds)) [0..<d])"

fun ravel :: "nat list \<Rightarrow> nat list \<Rightarrow> nat" where
  "ravel (d # ds) (i # js) = i * prod_list ds + ravel ds js"
| "ravel _ _ = 0"

text \<open>
  \<^verbatim>\<open>np.where(cond)\<close> for a condition on the elements of \<open>a\<close>: the multi-indices at which
  the condition holds, in row-major order (NumPy returns them as one index array per axis).
  A 0-dimensional array makes \<^verbatim>\<open>add\<close> raise in every version of NumPy: current ones refuse
  \<^verbatim>\<open>np.where\<close> on it (\<^verbatim>\<open>ValueError\<close>), older ones answer as for a 1-dimensional array and the
  indexing of the 0-dimensional array that follows raises \<^verbatim>\<open>IndexError\<close>, which is the error
  kept here.
\<close>

definition np_where :: "ndarray \<Rightarrow> (rat \<Rightarrow> bool) \<Rightarrow> error + nat list list" where
  "np_where a cond =
     (if shape a = [] then Inl IndexError
      else Inr (map fst (filter (\<lambda>(idx, x). cond x) (zip (indices (shape a)) (data a)))))"

text \<open>
  \<^verbatim>\<open>a[idx]\<close> for a tuple \<open>idx\<close> of \<open>r\<close> index arrays, given as the list of the multi-indices
  (each of length \<open>r\<close>) they describe. NumPy raises \<^verbatim>\<open>IndexError\<close> when \<open>a\<close> has fewer
  than \<open>r\<close> axes and when an index is not below the extent of its axis. The result has one
  block of \<open>a\<close> per multi-index: shape \<open>(k,) + a.shape[r:]\<close>.
\<close>

definition in_bounds :: "nat list \<Rightarrow> nat list \<Rightarrow> bool" where
  "in_bounds s idx = list_all2 (<) idx (take (length idx) s)"

definition index_by :: "ndarray \<Rightarrow> nat \<Rightarrow> nat list list \<Rightarrow> error + ndarray" where
  "index_by a r idxs =
     (if length (shape a) < r then Inl IndexError
      else if \<not> list_all (in_bounds (shape a)) idxs then Inl IndexError
      else
        let lead = take r (shape a); rest = drop r (shape a); blk = prod_list rest
        in Inr \<lparr>is_tensor = is_tensor a, shape = length idxs # rest,
                data = concat (map (\<lambda>idx. take blk (drop (ravel lead idx * blk) (data a))) idxs)\<rparr>)"

text \<open>\<^verbatim>\<open>a.flatten()\<close>: the elements in row-major order.\<close>

definition flatten :: "ndarray \<Rightarrow> rat list" where
  "flatten a = data a"

text \<open>
  \<^verbatim>\<open>np.vstack((t, p)).T\<close> for two 1-dimensional arrays: the rows \<open>(t[i], p[i])\<close>.
  \<^verbatim>\<open>np.vstack\<close> raises \<^verbatim>\<open>ValueError\<close> when the two lengths differ.
\<close>

definition vstack_T :: "rat list \<Rightarrow> rat list \<Rightarrow> error + (rat \<times> rat) list" where
  "vstack_T t p = (if length t = length p then Inr (zip t p) else Inl ValueError)"

section \<open>The histogram\<close>

text \<open>
  \<^verbatim>\<open>np.histogramdd(sample, bins=(n, n), range=[(0, n), (0, n)])\<close>. Each axis has the
  \<open>n + 1\<close> edges \<open>0, 1, ..., n\<close>. NumPy numbers the bin of a value by
  \<^verbatim>\<open>searchsorted(edges, x, side='right')\<close>, that is the number of edges that are at most
  \<open>x\<close>, moves a value equal to the last edge one bin to the left, and in the end drops the
  outlier bins \<open>0\<close> and \<open>n + 1\<close>. \<open>bin_index\<close> is the resulting bin \<open>0 .. n - 1\<close>, or \<open>None\<close> for
  an outlier.
\<close>

definition searchsorted_right :: "nat \<Rightarrow> rat \<Rightarrow> nat" where
  "searchsorted_right n x = length (filter (\<lambda>e. rat_of_nat e \<le> x) [0..<Suc n])"

definition bin_number :: "nat \<Rightarrow> rat \<Rightarrow> nat" where
  "bin_number n x = (if x = rat_of_nat n then searchsorted_right n x - 1 else searchsorted_right n x)"

definition bin_index :: "nat \<Rightarrow> rat \<Rightarrow> nat option" where
  "bin_index n x = (let b = bin_number n x in if 1 \<le> b \<and> b \<le> n then Some (b - 1) else None)"

text \<open>
  The histogram itself: cell \<open>(r, c)\<close> counts the samples whose first coordinate falls in
  bin \<open>r\<close> and whose second falls in bin \<open>c\<close>. \<^verbatim>\<open>np.histogramdd\<close> raises \<^verbatim>\<open>ValueError\<close>
  when the number of bins is not positive.
\<close>

definition in_cell :: "nat \<Rightarrow> nat \<Rightarrow> nat \<Rightarrow> rat \<times> rat \<Rightarrow> bool" where
  "in_cell n r c s = (bin_index n (fst s) = Some r \<and> bin_index n (snd s) = Some c)"

definition hist_counts :: "nat \<Rightarrow> (rat \<times> rat) list \<Rightarrow> nat list list" where
  "hist_counts n sample =
     map (\<lambda>r. map (\<lambda>c. length (filter (in_cell n r c) sample)) [0..<n]) [0..<n]"

definition histogramdd :: "(rat \<times> rat) list \<Rightarrow> nat \<Rightarrow> error + nat list list" where
  "histogramdd sample n = (if n < 1 then Inl ValueError else Inr (hist_counts n sample))"

section \<open>ConfusionMatrix\<close>

text \<open>
  \<^verbatim>\<open>self.conf\<close> is an \<^verbatim>\<open>np.int32\<close> array: its cells are 32-bit words, read as signed by
  \<open>sint\<close>, and \<^verbatim>\<open>+=\<close> wraps around. The array is an object shared by reference
  (\<^verbatim>\<open>value()\<close> hands it out), so it lives in a store of arrays and the \<^verbatim>\<open>ConfusionMatrix\<close>
  object holds its address.
\<close>

type_synonym int32_matrix = "32 word list list"
type_synonym heap = "int32_matrix list"

record ConfusionMatrix =
  num_classes :: nat
  normalized :: bool
  conf :: nat

definition zeros :: "nat \<Rightarrow> int32_matrix" where
  "zeros n = replicate n (replicate n 0)"

definition ConfusionMatrix_reset :: "ConfusionMatrix \<Rightarrow> heap \<Rightarrow> heap" where
  "ConfusionMatrix_reset cm h = h[conf cm := map (map (\<lambda>_. 0)) (h ! conf cm)]"

text \<open>
  \<^verbatim>\<open>__init__\<close>: a new \<open>num_classes \<times> num_classes\<close> array is allocated at a fresh address and
  filled with 0 by \<^verbatim>\<open>reset\<close>.
\<close>

definition ConfusionMatrix_init :: "nat \<Rightarrow> bool \<Rightarrow> heap \<Rightarrow> ConfusionMatrix \<times> heap" where
  "ConfusionMatrix_init n nrm h =
     (let cm = \<lparr>num_classes = n, normalized = nrm, conf = length h\<rparr>
      in (cm, ConfusionMatrix_reset cm (h @ [zeros n])))"

text \<open>
  \<^verbatim>\<open>conf.astype(np.int32)\<close> of the float histogram. A count below \<open>2^31\<close> is converted
  exactly. NumPy does not define the conversion of a larger float; the theorems about \<^verbatim>\<open>add\<close>
  are stated for calls in which no cell receives \<open>2^31\<close> counts or more, by a bound on the
  number of elements or of counted pairs.
\<close>

definition astype_int32 :: "nat list list \<Rightarrow> int32_matrix" where
  "astype_int32 m = map (map of_nat) m"

definition mat_add :: "int32_matrix \<Rightarrow> int32_matrix \<Rightarrow> int32_matrix" where
  "mat_add a b = map2 (map2 (+)) a b"

definition valid_label :: "nat \<Rightarrow> rat \<Rightarrow> bool" where
  "valid_label n x = (0 \<le> x \<and> x < rat_of_nat n)"

definition ConfusionMatrix_add :: "ConfusionMatrix \<Rightarrow> ndarray \<Rightarrow> ndarray \<Rightarrow> heap \<Rightarrow> error + heap" where
  "ConfusionMatrix_add cm pred target h =
     (let pred = to_numpy pred; target = to_numpy target in
      case np_where target (valid_label (num_classes cm)) of Inl e \<Rightarrow> Inl e
      | Inr valid_indices \<Rightarrow>
      (case index_by pred (length (shape target)) valid_indices of Inl e \<Rightarrow> Inl e
       | Inr pred' \<Rightarrow>
       (case index_by target (length (shape target)) valid_indices of Inl e \<Rightarrow> Inl e
        | Inr target' \<Rightarrow>
        (case vstack_T (flatten target') (flatten pred') of Inl e \<Rightarrow> Inl e
         | Inr replace_indices \<Rightarrow>
         (case histogramdd replace_indices (num_classes cm) of Inl e \<Rightarrow> Inl e
          | Inr hist \<Rightarrow>
            Inr (h[conf cm := mat_add (h ! conf cm) (astype_int32 hist)]))))))"

text \<open>
  \<^verbatim>\<open>value()\<close> returns \<^verbatim>\<open>self.conf\<close> itself when \<^verbatim>\<open>normalized\<close> is false: the caller gets the
  stored array, not a copy. When \<^verbatim>\<open>normalized\<close> is true it builds a new float array:
  \<^verbatim>\<open>conf / conf.sum(1).clip(min=1e-12)[:, None]\<close>. Floats are modelled by the exact rational
  value; rounding is not modelled.
\<close>

datatype matrix_value = Internal nat | FloatCopy "rat list list"

definition normalize_rows :: "int32_matrix \<Rightarrow> rat list list" where
  "normalize_rows m =
     map (\<lambda>row. let r = map (\<lambda>w. rat_of_int (sint w)) row;
                    s = max (sum_list r) (1 / 10 ^ 12)
                in map (\<lambda>x. x / s) r) m"

definition ConfusionMatrix_value :: "ConfusionMatrix \<Rightarrow> heap \<Rightarrow> matrix_value \<times> heap" where
  "ConfusionMatrix_value cm h =
     (if normalized cm then (FloatCopy (normalize_rows (h ! conf cm)), h)
      else (Internal (conf cm), h))"

section \<open>ConfusionMatrixBasedMetric\<close>

text \<open>
  The Python values that \<^verbatim>\<open>ignore_indices\<close> can be: \<^verbatim>\<open>None\<close>, an int, a float (standing for
  the values that are neither ints nor iterable), a string, or a list, tuple or other iterable
  of scalars. \<^verbatim>\<open>bool\<close> and nested iterables are left out.
\<close>

datatype scalar = SInt int | SFloat rat | SStr string

datatype pyobj = PNone | PInt int | PFloat rat | PStr string | PSeq "scalar list"

text \<open>\<^verbatim>\<open>tuple(x)\<close>: the elements of an iterable; \<^verbatim>\<open>TypeError\<close> for a value that is not iterable.\<close>

fun py_tuple :: "pyobj \<Rightarrow> error + scalar list" where
  "py_tuple (PSeq xs) = Inr xs"
| "py_tuple (PStr s) = Inr (map (\<lambda>c. SStr [c]) s)"
| "py_tuple _ = Inl TypeError"

record ConfusionMatrixBasedMetric =
  conf_matrix :: ConfusionMatrix
  reduced_probs :: bool
  ignore_indices :: "scalar list option"

definition ConfusionMatrixBasedMetric_init :: "nat \<Rightarrow> bool \<Rightarrow> bool \<Rightarrow> pyobj \<Rightarrow> heap \<Rightarrow> error + ConfusionMatrixBasedMetric \<times> heap" where
  "ConfusionMatrixBasedMetric_init n rp nrm ig h =
     (let (cm, h') = ConfusionMatrix_init n nrm h in
      case ig of
        PNone \<Rightarrow> Inr (\<lparr>conf_matrix = cm, reduced_probs = rp, ignore_indices = None\<rparr>, h')
      | PInt i \<Rightarrow> Inr (\<lparr>conf_matrix = cm, reduced_probs = rp, ignore_indices = Some [SInt i]\<rparr>, h')
      | _ \<Rightarrow>
        (case py_tuple ig of
           Inr xs \<Rightarrow> Inr (\<lparr>conf_matrix = cm, reduced_probs = rp, ignore_indices = Some xs\<rparr>, h')
         | Inl _ \<Rightarrow> Inl ValueError))"

definition ConfusionMatrixBasedMetric_reset :: "ConfusionMatrixBasedMetric \<Rightarrow> heap \<Rightarrow> heap" where
  "ConfusionMatrixBasedMetric_reset m h = ConfusionMatrix_reset (conf_matrix m) h"

text \<open>
  \<^verbatim>\<open>pred.argmax(dim=1)\<close>. \<^verbatim>\<open>dim\<close> is the keyword of \<^verbatim>\<open>torch.Tensor.argmax\<close>;
  \<^verbatim>\<open>numpy.ndarray.argmax\<close> takes \<^verbatim>\<open>axis\<close> and raises \<^verbatim>\<open>TypeError\<close> for the keyword \<^verbatim>\<open>dim\<close>.
  On a tensor of shape \<open>(n, c, ...)\<close> the result has shape \<open>(n, ...)\<close> and holds, for each
  position, the first index along axis 1 at which the maximum is reached; PyTorch raises
  \<^verbatim>\<open>IndexError\<close> when there is no axis 1 or when it has extent 0.
\<close>

fun argmax_list :: "rat list \<Rightarrow> nat" where
  "argmax_list [] = 0"
| "argmax_list [x] = 0"
| "argmax_list (x # y # ys) =
     (let j = argmax_list (y # ys) in if (y # ys) ! j > x then Suc j else 0)"

definition argmax_dim1 :: "ndarray \<Rightarrow> error + ndarray" where
  "argmax_dim1 a =
     (if \<not> is_tensor a then Inl TypeError
      else case shape a of
        n # c # rest \<Rightarrow>
          if c = 0 then Inl IndexError
          else let blk = prod_list rest in
            Inr \<lparr>is_tensor = True, shape = n # rest,
                 data = concat (map (\<lambda>i. map (\<lambda>r.
                          rat_of_nat (argmax_list (map (\<lambda>k. data a ! ((i * c + k) * blk + r)) [0..<c])))
                          [0..<blk]) [0..<n])\<rparr>
      | _ \<Rightarrow> Inl IndexError)"

definition ConfusionMatrixBasedMetric_add :: "ConfusionMatrixBasedMetric \<Rightarrow> ndarray \<Rightarrow> ndarray \<Rightarrow> heap \<Rightarrow> error + heap" where
  "ConfusionMatrixBasedMetric_add m pred target h =
     (if \<not> reduced_probs m then
        (case argmax_dim1 pred of Inl e \<Rightarrow> Inl e
         | Inr pred' \<Rightarrow> ConfusionMatrix_add (conf_matrix m) pred' target h)
      else ConfusionMatrix_add (conf_matrix m) pred target h)"

section \<open>DiceCoefficient\<close>

text \<open>\<^verbatim>\<open>DiceCoefficient\<close> inherits its fields and \<^verbatim>\<open>add\<close>, and adds \<^verbatim>\<open>value\<close>.\<close>

type_synonym DiceCoefficient = ConfusionMatrixBasedMetric

text \<open>
  Float results: a finite value, an infinity or not-a-number. Under
  \<^verbatim>\<open>np.errstate(divide='ignore', invalid='ignore')\<close> a division by zero does not raise:
  \<open>0 / 0\<close> is NaN and \<open>x / 0\<close> is an infinity with the sign of \<open>x\<close>.
\<close>

datatype fval = Fin rat | PInf | NInf | NaN

fun fdiv :: "fval \<Rightarrow> fval \<Rightarrow> fval" where
  "fdiv (Fin a) (Fin b) =
     (if b \<noteq> 0 then Fin (a / b) else if a = 0 then NaN else if 0 < a then PInf else NInf)"
| "fdiv PInf (Fin b) = (if b < 0 then NInf else PInf)"
| "fdiv NInf (Fin b) = (if b < 0 then PInf else NInf)"
| "fdiv (Fin a) PInf = Fin 0"
| "fdiv (Fin a) NInf = Fin 0"
| "fdiv _ _ = NaN"

fun fadd :: "fval \<Rightarrow> fval \<Rightarrow> fval" where
  "fadd (Fin a) (Fin b) = Fin (a + b)"
| "fadd NaN _ = NaN"
| "fadd _ NaN = NaN"
| "fadd PInf NInf = NaN"
| "fadd NInf PInf = NaN"
| "fadd PInf _ = PInf"
| "fadd _ PInf = PInf"
| "fadd NInf _ = NInf"
| "fadd _ NInf = NInf"

text \<open>
  \<^verbatim>\<open>np.nanmean\<close>: the sum of the entries that are not NaN, divided by their number; NaN
  (with a warning, not an exception) when there is none.
\<close>

definition nanmean :: "fval list \<Rightarrow> fval" where
  "nanmean vs =
     (let ok = filter (\<lambda>v. v \<noteq> NaN) vs
      in fdiv (foldr fadd ok (Fin 0)) (Fin (rat_of_nat (length ok))))"

text \<open>\<^verbatim>\<open>np.diag\<close>, \<^verbatim>\<open>np.sum(m, 0)\<close> and \<^verbatim>\<open>np.sum(m, 1)\<close> of a square matrix.\<close>

definition np_diag :: "'a list list \<Rightarrow> 'a list" where
  "np_diag m = map (\<lambda>i. m ! i ! i) [0..<length m]"

definition sum_axis0 :: "('a::monoid_add) list list \<Rightarrow> 'a list" where
  "sum_axis0 m = map (\<lambda>c. sum_list (map (\<lambda>row. row ! c) m)) [0..<length m]"

definition sum_axis1 :: "('a::monoid_add) list list \<Rightarrow> 'a list" where
  "sum_axis1 m = map sum_list m"

text \<open>
  An index into an axis of extent \<open>n\<close>, as NumPy resolves it: an int in \<open>[-n, n)\<close>, negative
  ones counting from the end. Anything else raises \<^verbatim>\<open>IndexError\<close>.
\<close>

fun resolve_index :: "nat \<Rightarrow> scalar \<Rightarrow> nat option" where
  "resolve_index n (SInt i) =
     (if 0 \<le> i \<and> i < int n then Some (nat i)
      else if - int n \<le> i \<and> i < 0 then Some (nat (i + int n))
      else None)"
| "resolve_index n _ = None"

fun resolve_indices :: "nat \<Rightarrow> scalar list \<Rightarrow> nat list option" where
  "resolve_indices n [] = Some []"
| "resolve_indices n (v # vs) =
     (case resolve_index n v of None \<Rightarrow> None
      | Some j \<Rightarrow> (case resolve_indices n vs of None \<Rightarrow> None | Some js \<Rightarrow> Some (j # js)))"

text \<open>\<^verbatim>\<open>m[:, js] = 0\<close> and \<^verbatim>\<open>m[js, :] = 0\<close>.\<close>

definition zero_cols :: "nat list \<Rightarrow> ('a::zero) list list \<Rightarrow> 'a list list" where
  "zero_cols js m = map (\<lambda>row. map (\<lambda>c. if c \<in> set js then 0 else row ! c) [0..<length row]) m"

definition zero_rows :: "nat list \<Rightarrow> ('a::zero) list list \<Rightarrow> 'a list list" where
  "zero_rows js m = map (\<lambda>r. if r \<in> set js then map (\<lambda>_. 0) (m ! r) else m ! r) [0..<length m]"

text \<open>\<^verbatim>\<open>np.delete(v, js)\<close>: the entries at the other positions.\<close>

definition np_delete :: "'a list \<Rightarrow> nat list \<Rightarrow> 'a list" where
  "np_delete v js = map ((!) v) (filter (\<lambda>i. i \<notin> set js) [0..<length v])"

text \<open>
  \<^verbatim>\<open>dice = 2 * true_positive / (2 * true_positive + false_positive + false_negative)\<close>,
  from the numerators \<open>2 * true_positive\<close> and the two other vectors.
\<close>

definition dice_formula :: "rat list \<Rightarrow> rat list \<Rightarrow> rat list \<Rightarrow> fval list" where
  "dice_formula tp2 fp fn =
     map (\<lambda>(a, p, q). fdiv (Fin a) (Fin (a + p + q))) (zip tp2 (zip fp fn))"

text \<open>
  On the \<^verbatim>\<open>int32\<close> array: \<^verbatim>\<open>np.diag\<close> keeps \<^verbatim>\<open>int32\<close>, so \<^verbatim>\<open>2 * true_positive\<close> wraps around
  in 32 bits; \<^verbatim>\<open>np.sum\<close> adds in 64 bits (the sum of a row or column of \<^verbatim>\<open>int32\<close> cells cannot
  leave that range, so it is an unbounded integer here), and so are the differences and
  the denominator.
\<close>

definition dice_int :: "int32_matrix \<Rightarrow> fval list" where
  "dice_int m =
     (let true_positive = np_diag m;
          false_positive = map2 (-) (sum_axis0 (map (map sint) m)) (map sint true_positive);
          false_negative = map2 (-) (sum_axis1 (map (map sint) m)) (map sint true_positive)
      in dice_formula (map (\<lambda>w. rat_of_int (sint (2 * w))) true_positive)
           (map rat_of_int false_positive) (map rat_of_int false_negative))"

definition dice_float :: "rat list list \<Rightarrow> fval list" where
  "dice_float m =
     (let true_positive = np_diag m;
          false_positive = map2 (-) (sum_axis0 m) true_positive;
          false_negative = map2 (-) (sum_axis1 m) true_positive
      in dice_formula (map (\<lambda>x. 2 * x) true_positive) false_positive false_negative)"

text \<open>
  \<^verbatim>\<open>DiceCoefficient.value\<close>. \<open>cmat\<close> (the local \<^verbatim>\<open>conf_matrix\<close>) is what
  \<^verbatim>\<open>self.conf_matrix.value()\<close> returned: either the stored array itself or a fresh float
  array. The two slice assignments write to that array; when it is the stored one, the store
  changes. An index that cannot be resolved raises \<^verbatim>\<open>IndexError\<close> before anything is written.
\<close>

definition DiceCoefficient_value :: "DiceCoefficient \<Rightarrow> heap \<Rightarrow> error + (fval \<times> fval list) \<times> heap" where
  "DiceCoefficient_value m h0 =
     (let (cmat, h) = ConfusionMatrix_value (conf_matrix m) h0;
          n = num_classes (conf_matrix m)
      in case ignore_indices m of
        None \<Rightarrow>
          (let dice = (case cmat of Internal a \<Rightarrow> dice_int (h ! a)
                       | FloatCopy f \<Rightarrow> dice_float f)
           in Inr ((nanmean dice, dice), h))
      | Some ig \<Rightarrow>
          (case resolve_indices n ig of
             None \<Rightarrow> Inl IndexError
           | Some js \<Rightarrow>
             (case cmat of
                Internal a \<Rightarrow>
                  (let h' = h[a := zero_rows js (zero_cols js (h ! a))];
                       dice = dice_int (h' ! a)
                   in Inr ((nanmean (np_delete dice js), dice), h'))
              | FloatCopy f \<Rightarrow>
                  (let f' = zero_rows js (zero_cols js f);
                       dice = dice_float f'
                   in Inr ((nanmean (np_delete dice js), dice), h)))))"

section \<open>Auxiliary notions for the statements\<close>

text \<open>
  The pixel pairs \<open>(target label, predicted label)\<close> of two arrays of one shape, position by
  position, that \<^verbatim>\<open>add\<close> keeps: those whose target label lies in \<open>[0, num_classes)\<close>.
\<close>

definition valid_pairs :: "nat \<Rightarrow> ndarray \<Rightarrow> ndarray \<Rightarrow> (rat \<times> rat) list" where
  "valid_pairs n pred target = filter (\<lambda>s. valid_label n (fst s)) (zip (data target) (data pred))"

text \<open>All pixel pairs of a sequence of calls \<open>(pred, target)\<close>.\<close>

definition all_pairs :: "(ndarray \<times> ndarray) list \<Rightarrow> (rat \<times> rat) list" where
  "all_pairs calls = concat (map (\<lambda>(pred, target). zip (data target) (data pred)) calls)"

text \<open>
  A pair is counted when its target label lies in \<open>[0, n)\<close> and its predicted label in
  \<open>[0, n]\<close>; it is counted in cell \<open>(r, c)\<close> when the target label lies in \<open>[r, r + 1)\<close> and
  the predicted label in \<open>[c, c + 1)\<close>, or equals \<open>n\<close> in the last column. For integer labels
  \<open>[r, r + 1)\<close> is the label \<open>r\<close> alone.
\<close>

definition counted :: "nat \<Rightarrow> rat \<times> rat \<Rightarrow> bool" where
  "counted n s = (valid_label n (fst s) \<and> 0 \<le> snd s \<and> snd s \<le> rat_of_nat n)"

definition counted_in :: "nat \<Rightarrow> nat \<Rightarrow> nat \<Rightarrow> rat \<times> rat \<Rightarrow> bool" where
  "counted_in n r c s =
     (rat_of_nat r \<le> fst s \<and> fst s < rat_of_nat r + 1 \<and>
      (rat_of_nat c \<le> snd s \<and> snd s < rat_of_nat c + 1 \<or> snd s = rat_of_nat n \<and> c = n - 1))"

text \<open>\<^verbatim>\<open>np.sum\<close> of the \<^verbatim>\<open>int32\<close> matrix: the cells are read as signed and added in 64 bits.\<close>

definition matrix_sum :: "int32_matrix \<Rightarrow> int" where
  "matrix_sum m = sum_list (map sint (concat m))"

definition square :: "nat \<Rightarrow> 'a list list \<Rightarrow> bool" where
  "square n m = (length m = n \<and> list_all (\<lambda>row. length row = n) m)"

text \<open>A sequence of \<^verbatim>\<open>add\<close> calls on one matrix; the first exception ends it.\<close>

fun run_adds :: "ConfusionMatrix \<Rightarrow> (ndarray \<times> ndarray) list \<Rightarrow> heap \<Rightarrow> error + heap" where
  "run_adds cm [] h = Inr h"
| "run_adds cm ((pred, target) # calls) h =
     (case ConfusionMatrix_add cm pred target h of Inl e \<Rightarrow> Inl e | Inr h' \<Rightarrow> run_adds cm calls h')"

text \<open>
  A new \<^verbatim>\<open>ConfusionMatrix\<close>, a sequence of \<^verbatim>\<open>add\<close> calls on it, and the counts it then
  holds.
\<close>

definition accumulate :: "nat \<Rightarrow> (ndarray \<times> ndarray) list \<Rightarrow> error + int32_matrix" where
  "accumulate n calls =
     (let (cm, h) = ConfusionMatrix_init n False [] in
      case run_adds cm calls h of Inl e \<Rightarrow> Inl e | Inr h' \<Rightarrow> Inr (h' ! conf cm))"

text \<open>
  The sample that one \<^verbatim>\<open>add\<close> call hands to the histogram: the steps of
  \<open>ConfusionMatrix_add\<close> before the stored array is touched.
\<close>

definition add_sample :: "nat \<Rightarrow> ndarray \<Rightarrow> ndarray \<Rightarrow> error + (rat \<times> rat) list" where
  "add_sample n pred target =
     (let pred = to_numpy pred; target = to_numpy target in
      case np_where target (valid_label n) of Inl e \<Rightarrow> Inl e
      | Inr valid_indices \<Rightarrow>
      (case index_by pred (length (shape target)) valid_indices of Inl e \<Rightarrow> Inl e
       | Inr pred' \<Rightarrow>
       (case index_by target (length (shape target)) valid_indices of Inl e \<Rightarrow> Inl e
        | Inr target' \<Rightarrow>
        (case vstack_T (flatten target') (flatten pred') of Inl e \<Rightarrow> Inl e
         | Inr replace_indices \<Rightarrow>
         (case histogramdd replace_indices n of Inl e \<Rightarrow> Inl e
          | Inr hist \<Rightarrow> Inr replace_indices)))))"

definition samples :: "nat \<Rightarrow> (ndarray \<times> ndarray) list \<Rightarrow> (rat \<times> rat) list" where
  "samples n calls =
     concat (map (\<lambda>(pred, target). case add_sample n pred target of Inl e \<Rightarrow> [] | Inr s \<Rightarrow> s) calls)"

text \<open>
  The positions at which \<open>target\<close> holds a label in \<open>[0, n)\<close>: what \<^verbatim>\<open>np.where\<close> returns
  in \<^verbatim>\<open>add\<close>.
\<close>

definition valid_positions :: "nat \<Rightarrow> ndarray \<Rightarrow> nat list list" where
  "valid_positions n target =
     map fst (filter (\<lambda>(idx, x). valid_label n x) (zip (indices (shape target)) (data target)))"

text \<open>
  Kinds of values for \<^verbatim>\<open>ignore_indices\<close>: an int (\<^verbatim>\<open>isinstance(x, int)\<close>), an iterable
  (\<^verbatim>\<open>tuple(x)\<close> works), and, in the words of the specification, "an integer or an iterable of
  integers".
\<close>

fun py_is_int :: "pyobj \<Rightarrow> bool" where
  "py_is_int (PInt i) = True"
| "py_is_int _ = False"

fun py_iterable :: "pyobj \<Rightarrow> bool" where
  "py_iterable (PSeq xs) = True"
| "py_iterable (PStr s) = True"
| "py_iterable _ = False"

fun scalar_is_int :: "scalar \<Rightarrow> bool" where
  "scalar_is_int (SInt i) = True"
| "scalar_is_int _ = False"

fun int_or_ints :: "pyobj \<Rightarrow> bool" where
  "int_or_ints (PInt i) = True"
| "int_or_ints (PSeq xs) = list_all scalar_is_int xs"
| "int_or_ints (PStr s) = (s = [])"
| "int_or_ints _ = False"

text \<open>
  The specification's reading of \<^verbatim>\<open>ConfusionMatrixBasedMetric.add\<close>: "if \<^verbatim>\<open>reduced_probs\<close> is
  false, \<^verbatim>\<open>pred\<close> is reduced to discrete labels by taking the arg-max over its class dimension
  before delegating to the confusion matrix's \<^verbatim>\<open>add\<close>". \<open>spec_argmax\<close> is that arg-max, over
  axis 1 of any array that has one, tensor or not; \<open>spec_add\<close> is the operation.
\<close>

definition spec_argmax :: "ndarray \<Rightarrow> ndarray" where
  "spec_argmax a =
     (case shape a of
        n # c # rest \<Rightarrow>
          let blk = prod_list rest in
            \<lparr>is_tensor = is_tensor a, shape = n # rest,
             data = concat (map (\<lambda>i. map (\<lambda>r.
                      rat_of_nat (argmax_list (map (\<lambda>k. data a ! ((i * c + k) * blk + r)) [0..<c])))
                      [0..<blk]) [0..<n])\<rparr>
      | _ \<Rightarrow> a)"

definition spec_add :: "ConfusionMatrixBasedMetric \<Rightarrow> ndarray \<Rightarrow> ndarray \<Rightarrow> heap \<Rightarrow> error + heap" where
  "spec_add m pred target h =
     (if \<not> reduced_probs m then ConfusionMatrix_add (conf_matrix m) (spec_argmax pred) target h
      else ConfusionMatrix_add (conf_matrix m) pred target h)"

text \<open>
  For the statements about \<^verbatim>\<open>DiceCoefficient.value\<close>. \<open>ignore_in_range\<close>: every ignored index
  is an int in \<open>[-num_classes, num_classes)\<close>, or \<^verbatim>\<open>ignore_indices\<close> is \<^verbatim>\<open>None\<close>. \<open>ignored\<close> are the
  resolved indices of the ignored classes. \<open>dice_matrix\<close> is the matrix the Dice formula is applied to, as
  rationals: the stored counts or their row-normalized copy, with the rows and columns of the
  ignored classes set to 0. Class \<open>c\<close> is absent from a matrix when its true positives, false
  positives and false negatives are all 0. \<open>fmean\<close> is the arithmetic mean.
\<close>

definition ignore_in_range :: "ConfusionMatrixBasedMetric \<Rightarrow> bool" where
  "ignore_in_range m =
     (case ignore_indices m of None \<Rightarrow> True
      | Some ig \<Rightarrow>
          list_all (\<lambda>v. case v of
                      SInt i \<Rightarrow> - int (num_classes (conf_matrix m)) \<le> i
                                \<and> i < int (num_classes (conf_matrix m))
                    | _ \<Rightarrow> False) ig)"

definition ignored :: "ConfusionMatrixBasedMetric \<Rightarrow> nat list" where
  "ignored m =
     (case ignore_indices m of None \<Rightarrow> []
      | Some ig \<Rightarrow> (case resolve_indices (num_classes (conf_matrix m)) ig of
                     None \<Rightarrow> [] | Some js \<Rightarrow> js))"

definition dice_matrix :: "ConfusionMatrixBasedMetric \<Rightarrow> heap \<Rightarrow> rat list list" where
  "dice_matrix m h =
     (let stored = h ! conf (conf_matrix m) in
      if normalized (conf_matrix m)
      then (if ignore_indices m = None then normalize_rows stored
            else zero_rows (ignored m) (zero_cols (ignored m) (normalize_rows stored)))
      else map (map (\<lambda>w. rat_of_int (sint w)))
             (if ignore_indices m = None then stored
              else zero_rows (ignored m) (zero_cols (ignored m) stored)))"

definition absent :: "rat list list \<Rightarrow> nat \<Rightarrow> bool" where
  "absent M c =
     (np_diag M ! c = 0 \<and> sum_axis0 M ! c - np_diag M ! c = 0
      \<and> sum_axis1 M ! c - np_diag M ! c = 0)"

definition fmean :: "fval list \<Rightarrow> fval" where
  "fmean vs = fdiv (foldr fadd vs (Fin 0)) (Fin (rat_of_nat (length vs)))"

text \<open>A 1-dimensional NumPy array and a tensor with the given elements.\<close>

definition vec :: "rat list \<Rightarrow> ndarray" where
  "vec xs = \<lparr>is_tensor = False, shape = [length xs], data = xs\<rparr>"

definition tensor :: "nat list \<Rightarrow> rat list \<Rightarrow> ndarray" where
  "tensor s xs = \<lparr>is_tensor = True, shape = s, data = xs\<rparr>"

definition array :: "nat list \<Rightarrow> rat list \<Rightarrow> ndarray" where
  "array s xs = \<lparr>is_tensor = False, shape = s, data = xs\<rparr>"

section \<open>Arrays: indices and offsets\<close>

lemma length_indices: "length (indices s) = prod_list s"
proof (induction s)
  case Nil show ?case by simp
next
  case (Cons d ds)
  have "length (concat (map (\<lambda>i. map ((#) i) (indices ds)) [0..<d])) = d * prod_list ds"
    by (induction d) (simp_all add: Cons.IH)
  then show ?case by simp
qed

lemma indices_below: "idx \<in> set (indices s) \<Longrightarrow> list_all2 (<) idx s"
  by (induction s arbitrary: idx) auto

lemma indices_shape:
  "idx \<in> set (indices s) \<Longrightarrow> length idx = length s \<and> in_bounds s idx"
proof -
  assume "idx \<in> set (indices s)"
  then have b: "list_all2 (<) idx s" by (rule indices_below)
  then have l: "length idx = length s" by (rule list_all2_lengthD)
  from b l show ?thesis by (simp add: in_bounds_def)
qed

lemma concat_map_upt_offsets:
  "concat (map (\<lambda>i. map (\<lambda>j. i * m + j) [0..<m]) [0..<d]) = [0..<d * m]"
proof (induction d)
  case 0 show ?case by simp
next
  case (Suc d)
  have "map (\<lambda>j. d * m + j) [0..<m] = [d * m..<d * m + m]"
    by (simp add: map_add_upt add.commute)
  moreover have "[0..<d * m + m] = [0..<d * m] @ [d * m..<d * m + m]"
    by (rule upt_add_eq_append) simp
  ultimately show ?case using Suc by (simp add: add.commute)
qed

lemma ravel_indices: "map (ravel s) (indices s) = [0..<prod_list s]"
proof (induction s)
  case Nil show ?case by simp
next
  case (Cons d ds)
  have "map (ravel (d # ds)) (indices (d # ds))
        = concat (map (\<lambda>i. map (\<lambda>j. i * prod_list ds + j) (map (ravel ds) (indices ds))) [0..<d])"
    by (simp add: map_concat comp_def)
  also have "\<dots> = [0..<d * prod_list ds]"
    by (simp only: Cons.IH concat_map_upt_offsets)
  finally show ?case by simp
qed

lemma select_by_offsets:
  assumes "length td = n" "length d = n"
  shows "map ((!) d) (map fst (filter (\<lambda>(j, x). P x) (zip [0..<n] td)))
         = map snd (filter (\<lambda>(x, y). P x) (zip td d))"
proof -
  have a: "zip [0..<n] td = map (\<lambda>j. (j, td ! j)) [0..<n]"
    using assms by (intro nth_equalityI) simp_all
  have b: "zip td d = map (\<lambda>j. (td ! j, d ! j)) [0..<n]"
    using assms by (intro nth_equalityI) simp_all
  show ?thesis
    unfolding a b by (simp add: filter_map comp_def)
qed

lemma ravel_below: "idx \<in> set (indices s) \<Longrightarrow> ravel s idx < prod_list s"
proof -
  assume "idx \<in> set (indices s)"
  then have "ravel s idx \<in> set (map (ravel s) (indices s))" by simp
  then show ?thesis by (simp only: ravel_indices) simp
qed

lemma map_fst_filter_zip_map:
  "map f (map fst (filter (\<lambda>(i, x). P x) (zip I td)))
   = map fst (filter (\<lambda>(j, x). P x) (zip (map f I) td))"
  by (induction I arbitrary: td) (auto split: list.splits simp: zip_Cons1)

lemma concat_singleton_blocks:
  assumes "\<forall>idx \<in> set idxs. g idx < length d"
  shows "concat (map (\<lambda>idx. take 1 (drop (g idx * 1) d)) idxs) = map (\<lambda>idx. d ! g idx) idxs"
  using assms
proof (induction idxs)
  case Nil show ?case by simp
next
  case (Cons i idxs)
  then have "g i < length d" by simp
  then have "take 1 (drop (g i) d) = [d ! g i]"
    by (simp add: take_Suc_conv_app_nth Cons_nth_drop_Suc[symmetric])
  with Cons show ?case by simp
qed

lemma map_snd_filter_zip:
  "length I = length td \<Longrightarrow> map snd (filter (\<lambda>(i, x). P x) (zip I td)) = filter P td"
  by (induction I td rule: list_induct2) auto

lemma index_by_same_shape:
  assumes wf: "length (data a) = prod_list (shape a)" and len: "length td = prod_list (shape a)"
  shows "index_by a (length (shape a)) (map fst (filter (\<lambda>(idx, x). P x) (zip (indices (shape a)) td)))
         = Inr \<lparr>is_tensor = is_tensor a,
                shape = [length (filter P td)],
                data = map snd (filter (\<lambda>(x, y). P x) (zip td (data a)))\<rparr>"
proof -
  let ?s = "shape a"
  let ?idxs = "map fst (filter (\<lambda>(idx, x). P x) (zip (indices ?s) td))"
  have sub: "set ?idxs \<subseteq> set (indices ?s)"
    by (auto dest: set_zip_leftD)
  have inb: "list_all (in_bounds ?s) ?idxs"
    unfolding list_all_iff using sub indices_shape by blast
  have below: "\<forall>idx \<in> set ?idxs. ravel ?s idx < length (data a)"
    using sub ravel_below wf by auto
  have d: "concat (map (\<lambda>idx. take 1 (drop (ravel ?s idx * 1) (data a))) ?idxs)
           = map snd (filter (\<lambda>(x, y). P x) (zip td (data a)))"
  proof -
    have "concat (map (\<lambda>idx. take 1 (drop (ravel ?s idx * 1) (data a))) ?idxs)
          = map (\<lambda>idx. data a ! ravel ?s idx) ?idxs"
      by (rule concat_singleton_blocks[OF below])
    also have "\<dots> = map ((!) (data a)) (map (ravel ?s) ?idxs)"
      by simp
    also have "map (ravel ?s) ?idxs
               = map fst (filter (\<lambda>(j, x). P x) (zip [0..<prod_list ?s] td))"
      by (simp only: map_fst_filter_zip_map ravel_indices)
    also have "map ((!) (data a)) \<dots> = map snd (filter (\<lambda>(x, y). P x) (zip td (data a)))"
      by (rule select_by_offsets[OF len wf])
    finally show ?thesis .
  qed
  have k: "length ?idxs = length (filter P td)"
  proof -
    have "length (indices ?s) = length td" by (simp add: length_indices len)
    then have "map snd (filter (\<lambda>(idx, x). P x) (zip (indices ?s) td)) = filter P td"
      by (rule map_snd_filter_zip)
    then have "length (filter (\<lambda>(idx, x). P x) (zip (indices ?s) td)) = length (filter P td)"
      by (metis length_map)
    then show ?thesis by simp
  qed
  show ?thesis
    unfolding index_by_def using inb d k by (simp add: Let_def)
qed

lemma to_numpy_simps [simp]: "shape (to_numpy a) = shape a" "data (to_numpy a) = data a"
  by (simp_all add: to_numpy_def)

lemma filter_zip_same: "map snd (filter (\<lambda>(x, y). P x) (zip td td)) = filter P td"
  by (induction td) auto

lemma map_fst_filter_zip: 
  "length td = length pd \<Longrightarrow> map fst (filter (\<lambda>(x, y). P x) (zip td pd)) = filter P td"
  by (induction td pd rule: list_induct2) auto

lemma add_sample_same_shape:
  assumes "wf_array pred" "wf_array target" "shape pred = shape target" "shape target \<noteq> []"
    and "0 < n"
  shows "add_sample n pred target = Inr (valid_pairs n pred target)"
proof -
  let ?n = n
  let ?P = "valid_label ?n"
  let ?p = "to_numpy pred" and ?t = "to_numpy target"
  have lt: "length (data ?t) = prod_list (shape ?t)" and lp: "length (data ?p) = prod_list (shape ?p)"
    using assms by (simp_all add: wf_array_def)
  have sh: "shape ?p = shape ?t" using assms by simp
  have lpt: "length (data ?t) = prod_list (shape ?p)" using lt sh by simp
  have w: "np_where ?t ?P = Inr (map fst (filter (\<lambda>(idx, x). ?P x) (zip (indices (shape ?t)) (data ?t))))"
    using assms by (simp add: np_where_def)
  have ip: "index_by ?p (length (shape ?t)) (map fst (filter (\<lambda>(idx, x). ?P x) (zip (indices (shape ?t)) (data ?t))))
            = Inr \<lparr>is_tensor = is_tensor ?p, shape = [length (filter ?P (data ?t))],
                   data = map snd (filter (\<lambda>(x, y). ?P x) (zip (data ?t) (data ?p)))\<rparr>"
    using index_by_same_shape[OF lp lpt, of ?P] by (simp only: sh)
  have it: "index_by ?t (length (shape ?t)) (map fst (filter (\<lambda>(idx, x). ?P x) (zip (indices (shape ?t)) (data ?t))))
            = Inr \<lparr>is_tensor = is_tensor ?t, shape = [length (filter ?P (data ?t))],
                   data = filter ?P (data ?t)\<rparr>"
    using index_by_same_shape[OF lt lt, of ?P] by (simp only: filter_zip_same)
  have len: "length (data ?t) = length (data ?p)" using lt lp sh by simp
  have vp: "filter (\<lambda>(x, y). ?P x) (zip (data ?t) (data ?p)) = valid_pairs ?n pred target"
    by (simp add: valid_pairs_def case_prod_unfold)
  have f: "filter ?P (data ?t) = map fst (valid_pairs ?n pred target)"
    using map_fst_filter_zip[OF len, of ?P] by (simp only: vp)
  have n: "\<not> ?n < 1" using assms(5) by simp
  show ?thesis
    unfolding add_sample_def Let_def
    apply (simp only: w sum.case)
    apply (simp only: ip it sum.case flatten_def vstack_T_def ndarray.simps)
    apply (simp only: vp f zip_map_fst_snd length_map histogramdd_def n if_False)
    apply simp
    done
qed

section \<open>One call of add\<close>

lemma cm_add_sample:
  "ConfusionMatrix_add cm pred target h =
     (case add_sample (num_classes cm) pred target of Inl e \<Rightarrow> Inl e
      | Inr s \<Rightarrow> Inr (h[conf cm := mat_add (h ! conf cm)
                          (astype_int32 (hist_counts (num_classes cm) s))]))"
  unfolding ConfusionMatrix_add_def add_sample_def Let_def
  by (simp add: histogramdd_def split: sum.splits)

lemma cm_add_same_shape:
  assumes "wf_array pred" "wf_array target" "shape pred = shape target" "shape target \<noteq> []"
    and "0 < num_classes cm"
  shows "ConfusionMatrix_add cm pred target h
         = Inr (h[conf cm := mat_add (h ! conf cm)
                   (astype_int32 (hist_counts (num_classes cm) (valid_pairs (num_classes cm) pred target)))])"
  by (simp add: cm_add_sample add_sample_same_shape[OF assms])

section \<open>Bins\<close>

lemma length_filter_le_upt: "length (filter (\<lambda>e. e \<le> k) [0..<m]) = min m (Suc k)"
  by (induction m) auto

lemma searchsorted_right_eq:
  "searchsorted_right n x = (if x < 0 then 0 else min (Suc n) (Suc (nat \<lfloor>x\<rfloor>)))"
proof (cases "x < 0")
  case True
  then have "\<And>e. \<not> rat_of_nat e \<le> x"
    by (metis of_nat_0_le_iff order.trans not_less)
  then show ?thesis using True by (simp add: searchsorted_right_def)
next
  case False
  then have "\<And>e. (rat_of_nat e \<le> x) = (e \<le> nat \<lfloor>x\<rfloor>)"
    by linarith
  then show ?thesis using False
    by (simp add: searchsorted_right_def length_filter_le_upt del: upt_Suc)
qed

lemma bin_index_eq:
  "bin_index n x =
     (if 0 \<le> x \<and> x < rat_of_nat n then Some (nat \<lfloor>x\<rfloor>)
      else if x = rat_of_nat n \<and> 0 < n then Some (n - 1) else None)"
proof -
  consider "x < 0" | "0 \<le> x" "x < rat_of_nat n" | "x = rat_of_nat n" | "rat_of_nat n < x"
    by linarith
  then show ?thesis
  proof cases
    case 1
    then show ?thesis by (simp add: bin_index_def bin_number_def searchsorted_right_eq)
  next
    case 2
    then have "nat \<lfloor>x\<rfloor> < n" by linarith
    with 2 show ?thesis by (simp add: bin_index_def bin_number_def searchsorted_right_eq)
  next
    case 3
    then show ?thesis by (simp add: bin_index_def bin_number_def searchsorted_right_eq)
  next
    case 4
    then have "n \<le> nat \<lfloor>x\<rfloor>" by linarith
    with 4 show ?thesis by (simp add: bin_index_def bin_number_def searchsorted_right_eq)
  qed
qed

lemma bin_index_below: "bin_index n x = Some k \<Longrightarrow> k < n"
  by (auto simp: bin_index_eq floor_less_iff nat_less_iff split: if_splits)

section \<open>The count matrix\<close>

lemma map2_map_map: "map2 f (map g xs) (map k xs) = map (\<lambda>x. f (g x) (k x)) xs"
  by (induction xs) auto

lemma astype_hist_append:
  "astype_int32 (hist_counts n (xs @ ys))
   = mat_add (astype_int32 (hist_counts n xs)) (astype_int32 (hist_counts n ys))"
  by (simp add: astype_int32_def hist_counts_def mat_add_def map2_map_map comp_def)

lemma astype_hist_Nil: "astype_int32 (hist_counts n []) = zeros n"
  by (simp add: astype_int32_def hist_counts_def zeros_def comp_def map_replicate_const)

lemma hist_counts_mset:
  assumes "mset xs = mset ys"
  shows "hist_counts n xs = hist_counts n ys"
proof -
  have "\<And>P. length (filter P xs) = length (filter P ys)"
  proof -
    fix P :: "rat \<times> rat \<Rightarrow> bool"
    have "size (filter_mset P (mset xs)) = size (filter_mset P (mset ys))"
      by (simp only: assms)
    then show "length (filter P xs) = length (filter P ys)"
      by (simp only: mset_filter[symmetric] size_mset)
  qed
  then show ?thesis by (simp add: hist_counts_def)
qed

lemma mat_add_commute: "mat_add a b = mat_add b a"
proof -
  have row: "\<And>(x::32 word list) y. map2 (+) x y = map2 (+) y x"
  proof -
    fix x y :: "32 word list"
    show "map2 (+) x y = map2 (+) y x"
      by (induction x arbitrary: y) (auto simp: zip_Cons1 add.commute split: list.splits)
  qed
  show ?thesis
    unfolding mat_add_def
    by (induction a arbitrary: b) (auto simp: zip_Cons1 row split: list.splits)
qed

lemma mat_add_assoc: "mat_add (mat_add a b) c = mat_add a (mat_add b c)"
proof -
  have row: "\<And>(x::32 word list) y z. map2 (+) (map2 (+) x y) z = map2 (+) x (map2 (+) y z)"
  proof -
    fix x y z :: "32 word list"
    show "map2 (+) (map2 (+) x y) z = map2 (+) x (map2 (+) y z)"
      by (induction x arbitrary: y z) (auto simp: zip_Cons1 add.assoc split: list.splits)
  qed
  show ?thesis
    unfolding mat_add_def
    by (induction a arbitrary: b c) (auto simp: zip_Cons1 row split: list.splits)
qed

lemma square_astype_hist: "square n (astype_int32 (hist_counts n xs))"
  by (simp add: square_def astype_int32_def hist_counts_def list_all_iff)

lemma cm_init_eq:
  "ConfusionMatrix_init n nrm h = (\<lparr>num_classes = n, normalized = nrm, conf = length h\<rparr>, h @ [zeros n])"
  by (simp add: ConfusionMatrix_init_def ConfusionMatrix_reset_def zeros_def Let_def)

section \<open>Sequences of calls\<close>

lemma run_adds_ok:
  assumes "\<forall>(p, t) \<in> set calls. \<exists>s. add_sample (num_classes cm) p t = Inr s"
    and "conf cm < length h"
    and "h ! conf cm = astype_int32 (hist_counts (num_classes cm) xs)"
  shows "run_adds cm calls h
         = Inr (h[conf cm := astype_int32 (hist_counts (num_classes cm)
                                (xs @ samples (num_classes cm) calls))])"
  using assms
proof (induction calls arbitrary: h xs)
  case Nil
  then have "h[conf cm := astype_int32 (hist_counts (num_classes cm) xs)] = h"
    by (metis list_update_id)
  then show ?case by (simp add: samples_def)
next
  case (Cons call calls)
  obtain p t where call: "call = (p, t)" by (cases call)
  from Cons.prems(1) call obtain s where s: "add_sample (num_classes cm) p t = Inr s" by auto
  let ?h = "h[conf cm := astype_int32 (hist_counts (num_classes cm) (xs @ s))]"
  have step: "ConfusionMatrix_add cm p t h = Inr ?h"
    by (simp add: cm_add_sample s Cons.prems(3) astype_hist_append)
  have "run_adds cm calls ?h
        = Inr (?h[conf cm := astype_int32 (hist_counts (num_classes cm)
                                ((xs @ s) @ samples (num_classes cm) calls))])"
    using Cons.prems by (intro Cons.IH) simp_all
  then show ?case
    by (simp add: call step samples_def s)
qed

lemma run_adds_fails:
  assumes "(p, t) \<in> set calls" "add_sample (num_classes cm) p t = Inl e"
  shows "\<exists>e'. run_adds cm calls h = Inl e'"
  using assms
proof (induction calls arbitrary: h)
  case Nil
  then show ?case by simp
next
  case (Cons call calls)
  obtain p' t' where call: "call = (p', t')" by (cases call)
  show ?case
  proof (cases "add_sample (num_classes cm) p' t'")
    case (Inl e')
    then show ?thesis by (simp add: call cm_add_sample)
  next
    case (Inr s)
    with Cons call have "(p, t) \<in> set calls" by auto
    with Cons Inr show ?thesis by (simp add: call cm_add_sample)
  qed
qed

lemma accumulate_iff:
  "accumulate n calls = Inr m \<longleftrightarrow>
     (\<forall>(p, t) \<in> set calls. \<exists>s. add_sample n p t = Inr s)
     \<and> m = astype_int32 (hist_counts n (samples n calls))"
proof (cases "\<forall>(p, t) \<in> set calls. \<exists>s. add_sample n p t = Inr s")
  case True
  let ?cm = "\<lparr>num_classes = n, normalized = False, conf = 0\<rparr>"
  have "run_adds ?cm calls [zeros n]
        = Inr ([zeros n][conf ?cm := astype_int32 (hist_counts (num_classes ?cm)
                                        ([] @ samples (num_classes ?cm) calls))])"
    using True by (intro run_adds_ok) (simp_all add: astype_hist_Nil)
  then show ?thesis using True
    by (auto simp: accumulate_def cm_init_eq)
next
  case False
  then obtain p t where pt: "(p, t) \<in> set calls" "\<not> (\<exists>s. add_sample n p t = Inr s)" by auto
  then obtain e where "add_sample n p t = Inl e" by (cases "add_sample n p t") auto
  with pt(1) obtain e' where
    "run_adds \<lparr>num_classes = n, normalized = False, conf = 0\<rparr> calls [zeros n] = Inl e'"
    using run_adds_fails[of p t calls "\<lparr>num_classes = n, normalized = False, conf = 0\<rparr>" e "[zeros n]"]
    by auto
  then show ?thesis using False
    by (simp add: accumulate_def cm_init_eq)
qed

lemma mset_samples:
  "mset (samples n calls)
   = (\<Sum>c \<in># mset calls. mset (case c of (pred, target) \<Rightarrow>
        (case add_sample n pred target of Inl e \<Rightarrow> [] | Inr s \<Rightarrow> s)))"
proof -
  let ?f = "\<lambda>c. case c of (pred, target) \<Rightarrow>
        (case add_sample n pred target of Inl e \<Rightarrow> [] | Inr s \<Rightarrow> s)"
  have "mset (samples n calls) = sum_list (map (\<lambda>c. mset (?f c)) calls)"
    by (simp add: samples_def mset_concat comp_def)
  also have "\<dots> = sum_mset (mset (map (\<lambda>c. mset (?f c)) calls))"
    by (simp only: sum_mset_sum_list)
  finally show ?thesis by simp
qed

lemma samples_partition:
  assumes "mset whole = mset part1 + mset part2"
  shows "mset (samples n whole) = mset (samples n (part1 @ part2))"
  by (simp add: mset_samples assms)

lemma samples_append: "samples n (a @ b) = samples n a @ samples n b"
  by (simp add: samples_def)

text \<open>
  C7. Split the calls of a dataset into two parts in any way (\<open>whole\<close> holds the calls of
  \<open>part1\<close> and \<open>part2\<close>, in any order; each call has fewer than \<open>2^31\<close> pixels). Accumulating the whole in one matrix succeeds exactly
  when accumulating each part in a matrix of its own does, and its counts are then the
  element-wise sum of the two parts' counts. The element-wise sum is commutative and
  associative.
\<close>

theorem merge_of_parts:
  assumes "mset whole = mset part1 + mset part2"
    and "\<forall>(pred, target) \<in> set whole. length (data target) < 2 ^ 31"
  shows "(accumulate n whole = Inr m \<longleftrightarrow>
            (\<exists>m1 m2. accumulate n part1 = Inr m1 \<and> accumulate n part2 = Inr m2
                     \<and> m = mat_add m1 m2))
         \<and> mat_add a b = mat_add b a
         \<and> mat_add (mat_add a b) c = mat_add a (mat_add b c)"
proof -
  have set: "set whole = set part1 \<union> set part2"
    using assms by (metis set_mset_mset set_mset_union)
  have "hist_counts n (samples n whole) = hist_counts n (samples n (part1 @ part2))"
    by (rule hist_counts_mset) (rule samples_partition[OF assms(1)])
  then have h1: "astype_int32 (hist_counts n (samples n whole))
        = mat_add (astype_int32 (hist_counts n (samples n part1)))
                  (astype_int32 (hist_counts n (samples n part2)))"
    by (simp add: samples_append astype_hist_append)
  have h2: "(\<forall>(p, t) \<in> set whole. \<exists>s. add_sample n p t = Inr s) \<longleftrightarrow>
      (\<forall>(p, t) \<in> set part1. \<exists>s. add_sample n p t = Inr s)
      \<and> (\<forall>(p, t) \<in> set part2. \<exists>s. add_sample n p t = Inr s)"
    unfolding set by (rule ball_Un)
  have "accumulate n whole = Inr m \<longleftrightarrow>
            (\<exists>m1 m2. accumulate n part1 = Inr m1 \<and> accumulate n part2 = Inr m2
                     \<and> m = mat_add m1 m2)"
    unfolding accumulate_iff by (auto simp only: h1 h2)
  then show ?thesis
    using mat_add_commute mat_add_assoc by blast
qed

theorem merge_of_parts_witness:
  "mset [(vec [0, 1], vec [0, 0]), (vec [1, 5], vec [1, 1])]
     = mset [(vec [1, 5], vec [1, 1])] + mset [(vec [0, 1], vec [0, 0])]
   \<and> length (data (vec [0, 0])) < 2 ^ 31 \<and> length (data (vec [1, 1])) < 2 ^ 31
   \<and> accumulate 2 [(vec [1, 5], vec [1, 1])] = Inr [[0, 0], [0, 1]]
   \<and> accumulate 2 [(vec [0, 1], vec [0, 0])] = Inr [[1, 1], [0, 0]]
   \<and> accumulate 2 [(vec [0, 1], vec [0, 0]), (vec [1, 5], vec [1, 1])]
       = Inr (mat_add [[0, 0], [0, 1]] [[1, 1], [0, 0]])"
proof -
  have h: "mset [(vec [0, 1], vec [0, 0]), (vec [1, 5], vec [1, 1])]
     = mset [(vec [1, 5], vec [1, 1])] + mset [(vec [0, 1], vec [0, 0])]"
    by simp
  have l: "length (data (vec [0, 0])) < 2 ^ 31" "length (data (vec [1, 1])) < 2 ^ 31"
    by (simp_all add: vec_def)
  then have s: "\<forall>(pred, target) \<in> set [(vec [0, 1], vec [0, 0]), (vec [1, 5], vec [1, 1])].
                 length (data target) < 2 ^ 31"
    by simp
  have p1: "accumulate 2 [(vec [1, 5], vec [1, 1])] = Inr [[0, 0], [0, 1]]"
    by code_simp
  have p2: "accumulate 2 [(vec [0, 1], vec [0, 0])] = Inr [[1, 1], [0, 0]]"
    by code_simp
  from merge_of_parts[OF h s, of 2 "mat_add [[0, 0], [0, 1]] [[1, 1], [0, 0]]"] p1 p2
  have "accumulate 2 [(vec [0, 1], vec [0, 0]), (vec [1, 5], vec [1, 1])]
       = Inr (mat_add [[0, 0], [0, 1]] [[1, 1], [0, 0]])"
    by blast
  with h l p1 p2 show ?thesis by blast
qed

section \<open>The sum of the cells\<close>

lemma sum_list_concat_map: "sum_list (concat xss) = (\<Sum>xs\<leftarrow>xss. sum_list (xs :: 'a::monoid_add list))"
  by (induction xss) auto

lemma sum_list_indicator:
  "(\<Sum>c\<leftarrow>[0..<n]. if v = Some c then 1 else 0) = (case v of None \<Rightarrow> 0 | Some k \<Rightarrow> if k < n then 1 else (0::nat))"
  by (induction n) (auto split: option.splits)

lemma sum_cells_one:
  "(\<Sum>r\<leftarrow>[0..<n]. \<Sum>c\<leftarrow>[0..<n]. if in_cell n r c z then 1 else 0)
   = (if bin_index n (fst z) \<noteq> None \<and> bin_index n (snd z) \<noteq> None then 1 else (0::nat))"
proof -
  have inner: "\<And>r. (\<Sum>c\<leftarrow>[0..<n]. if in_cell n r c z then 1 else 0)
      = (if bin_index n (fst z) = Some r \<and> bin_index n (snd z) \<noteq> None then 1 else (0::nat))"
  proof -
    fix r
    show "(\<Sum>c\<leftarrow>[0..<n]. if in_cell n r c z then 1 else 0)
      = (if bin_index n (fst z) = Some r \<and> bin_index n (snd z) \<noteq> None then 1 else (0::nat))"
    proof (cases "bin_index n (fst z) = Some r")
      case True
      then have "(\<Sum>c\<leftarrow>[0..<n]. if in_cell n r c z then 1 else 0)
                 = (\<Sum>c\<leftarrow>[0..<n]. if bin_index n (snd z) = Some c then 1 else (0::nat))"
        by (simp add: in_cell_def)
      then show ?thesis using True
        by (auto simp: sum_list_indicator split: option.splits dest: bin_index_below)
    next
      case False
      then show ?thesis by (simp add: in_cell_def)
    qed
  qed
  have "(\<Sum>r\<leftarrow>[0..<n]. if bin_index n (fst z) = Some r \<and> bin_index n (snd z) \<noteq> None then 1 else (0::nat))
        = (if bin_index n (snd z) \<noteq> None then
             (\<Sum>r\<leftarrow>[0..<n]. if bin_index n (fst z) = Some r then 1 else (0::nat)) else 0)"
    by simp
  then show ?thesis
    by (auto simp: inner sum_list_indicator split: option.splits dest: bin_index_below)
qed

lemma length_filter_Cons:
  "length (filter P (z # zs)) = (if P z then 1 else 0) + length (filter P zs)"
  by simp

lemma sum_hist_counts:
  "sum_list (concat (hist_counts n zs))
   = length (filter (\<lambda>z. bin_index n (fst z) \<noteq> None \<and> bin_index n (snd z) \<noteq> None) zs)"
proof (induction zs)
  case Nil
  show ?case by (simp add: hist_counts_def sum_list_concat_map comp_def)
next
  case (Cons z zs)
  have "sum_list (concat (hist_counts n (z # zs)))
        = (\<Sum>r\<leftarrow>[0..<n]. \<Sum>c\<leftarrow>[0..<n]. (if in_cell n r c z then 1 else 0)
             + length (filter (in_cell n r c) zs))"
    by (simp add: hist_counts_def sum_list_concat_map comp_def length_filter_Cons del: filter.simps)
  also have "\<dots> = (\<Sum>r\<leftarrow>[0..<n]. \<Sum>c\<leftarrow>[0..<n]. if in_cell n r c z then 1 else 0)
                 + sum_list (concat (hist_counts n zs))"
    by (simp add: hist_counts_def sum_list_concat_map comp_def sum_list_addf)
  finally show ?case
    by (simp only: sum_cells_one Cons.IH) simp
qed

lemma sint_of_nat_small:
  assumes "k < 2 ^ 31"
  shows "sint (of_nat k :: 32 word) = int k"
proof -
  have "sint (of_nat k :: 32 word) = signed_take_bit 31 (int k)"
    by (simp add: signed_of_nat)
  also have "\<dots> = int k"
    using assms by (simp add: signed_take_bit_int_eq_self)
  finally show ?thesis .
qed

lemma matrix_sum_astype:
  assumes "sum_list (concat m) < 2 ^ 31"
  shows "matrix_sum (astype_int32 m) = int (sum_list (concat m))"
proof -
  have small: "\<And>k. k \<in> set (concat m) \<Longrightarrow> k < 2 ^ 31"
    using assms member_le_sum_list le_less_trans by blast
  have "map sint (concat (astype_int32 m)) = map (\<lambda>k. sint (of_nat k :: 32 word)) (concat m)"
    by (simp add: astype_int32_def map_concat comp_def)
  also have "\<dots> = map int (concat m)"
    using small by (intro map_cong refl sint_of_nat_small) blast
  finally show ?thesis
    by (simp add: matrix_sum_def sum_list_of_nat[symmetric] comp_def)
qed

lemma binned_valid_pair:
  assumes "0 < n"
  shows "(valid_label n (fst z) \<and> bin_index n (fst z) \<noteq> None \<and> bin_index n (snd z) \<noteq> None)
         = counted n z"
  using assms by (auto simp: bin_index_eq counted_def valid_label_def)

lemma filter_binned_valid_pairs:
  assumes "0 < n"
  shows "filter (\<lambda>z. bin_index n (fst z) \<noteq> None \<and> bin_index n (snd z) \<noteq> None)
           (valid_pairs n pred target)
         = filter (counted n) (zip (data target) (data pred))"
  unfolding valid_pairs_def filter_filter
  by (rule filter_cong[OF refl]) (use binned_valid_pair[OF assms] in blast)

lemma samples_same_shape:
  assumes "\<forall>(p, t) \<in> set calls. wf_array p \<and> wf_array t \<and> shape p = shape t \<and> shape t \<noteq> []"
    and "0 < n"
  shows "samples n calls = concat (map (\<lambda>(p, t). valid_pairs n p t) calls)"
proof -
  have "map (\<lambda>(pred, target). case add_sample n pred target of Inl e \<Rightarrow> [] | Inr s \<Rightarrow> s) calls
        = map (\<lambda>(p, t). valid_pairs n p t) calls"
    using assms by (intro map_cong refl) (auto simp: add_sample_same_shape)
  then show ?thesis by (simp only: samples_def)
qed

lemma calls_same_shape_ok:
  assumes "\<forall>(p, t) \<in> set calls. wf_array p \<and> wf_array t \<and> shape p = shape t \<and> shape t \<noteq> []"
    and "0 < n"
  shows "\<forall>(p, t) \<in> set calls. \<exists>s. add_sample n p t = Inr s"
  using assms by (auto simp: add_sample_same_shape)

lemma counted_samples:
  assumes "\<forall>(p, t) \<in> set calls. wf_array p \<and> wf_array t \<and> shape p = shape t \<and> shape t \<noteq> []"
    and "0 < n"
  shows "filter (\<lambda>z. bin_index n (fst z) \<noteq> None \<and> bin_index n (snd z) \<noteq> None) (samples n calls)
         = filter (counted n) (all_pairs calls)"
proof -
  have "map (filter (\<lambda>z. bin_index n (fst z) \<noteq> None \<and> bin_index n (snd z) \<noteq> None))
          (map (\<lambda>(p, t). valid_pairs n p t) calls)
        = map (filter (counted n)) (map (\<lambda>(pred, target). zip (data target) (data pred)) calls)"
    by (simp only: map_map comp_def case_prod_unfold filter_binned_valid_pairs[OF assms(2)])
  then show ?thesis
    by (simp only: samples_same_shape[OF assms] all_pairs_def filter_concat)
qed

text \<open>
  C1, as the code has it. On a new matrix, after any sequence of \<^verbatim>\<open>add\<close> calls with arrays of
  equal shape, the sum of the cells is the number of pixel pairs whose target label lies in
  \<open>[0, num_classes)\<close> and whose predicted label lies in \<open>[0, num_classes]\<close>, as long as that
  number is below \<open>2^31\<close> (the cells are \<^verbatim>\<open>int32\<close>).
\<close>

theorem sum_of_cells:
  assumes "\<forall>(p, t) \<in> set calls. wf_array p \<and> wf_array t \<and> shape p = shape t \<and> shape t \<noteq> []"
    and "0 < n"
    and "length (filter (counted n) (all_pairs calls)) < 2 ^ 31"
  shows "\<exists>m. accumulate n calls = Inr m
             \<and> matrix_sum m = int (length (filter (counted n) (all_pairs calls)))"
proof -
  let ?m = "hist_counts n (samples n calls)"
  have acc: "accumulate n calls = Inr (astype_int32 ?m)"
    using calls_same_shape_ok[OF assms(1,2)] by (simp add: accumulate_iff)
  have total: "sum_list (concat ?m) = length (filter (counted n) (all_pairs calls))"
    by (simp only: sum_hist_counts counted_samples[OF assms(1,2)])
  then have "matrix_sum (astype_int32 ?m) = int (length (filter (counted n) (all_pairs calls)))"
    using assms(3) by (simp add: matrix_sum_astype)
  with acc show ?thesis by blast
qed

theorem sum_of_cells_witness:
  "wf_array (vec [0, 5, 2, 1]) \<and> wf_array (vec [0, 0, 1, 7])
   \<and> shape (vec [0, 5, 2, 1]) = shape (vec [0, 0, 1, 7]) \<and> shape (vec [0, 0, 1, 7]) \<noteq> []
   \<and> length (filter (counted 2) (all_pairs [(vec [0, 5, 2, 1], vec [0, 0, 1, 7])])) = 2
   \<and> (\<exists>m. accumulate 2 [(vec [0, 5, 2, 1], vec [0, 0, 1, 7])] = Inr m \<and> matrix_sum m = 2)"
proof -
  have h1: "\<forall>(p, t) \<in> set [(vec [0, 5, 2, 1], vec [0, 0, 1, 7])].
              wf_array p \<and> wf_array t \<and> shape p = shape t \<and> shape t \<noteq> []"
    by (simp add: vec_def wf_array_def)
  have len: "length (filter (counted 2) (all_pairs [(vec [0, 5, 2, 1], vec [0, 0, 1, 7])])) = 2"
    by (simp add: all_pairs_def vec_def counted_def valid_label_def)
  from sum_of_cells[OF h1, of 2] len
  have "\<exists>m. accumulate 2 [(vec [0, 5, 2, 1], vec [0, 0, 1, 7])] = Inr m \<and> matrix_sum m = 2"
    by simp
  with h1 len show ?thesis by (simp add: vec_def wf_array_def)
qed

text \<open>
  C1 as stated fails: a pair with a valid target label and the predicted label 5 is not
  counted when there are 2 classes.
\<close>

theorem sum_of_cells_counterexample:
  "length (valid_pairs 2 (vec [5]) (vec [0])) = 1
   \<and> accumulate 2 [(vec [5], vec [0])] = Inr [[0, 0], [0, 0]]
   \<and> matrix_sum [[0, 0], [0, 0]] = 0"
  by (simp add: valid_pairs_def vec_def valid_label_def matrix_sum_def) code_simp

text \<open>
  The bound on the number of counted pairs is needed: two calls with \<open>2^30\<close> pixels of class 0 each,
  predicted correctly, leave the only cell at \<open>-2^31\<close>.
\<close>

lemma accumulate_constant:
  "accumulate 1 [(vec (replicate k 0), vec (replicate k 0)), (vec (replicate k 0), vec (replicate k 0))]
   = Inr [[of_nat (k + k)]]"
proof -
  let ?z = "vec (replicate k 0)"
  have sh: "\<forall>(p, t) \<in> set [(?z, ?z), (?z, ?z)].
              wf_array p \<and> wf_array t \<and> shape p = shape t \<and> shape t \<noteq> []"
    by (simp add: vec_def wf_array_def)
  have vp: "valid_pairs 1 ?z ?z = replicate k (0, 0)"
    by (simp add: valid_pairs_def vec_def zip_replicate valid_label_def)
  have cell: "in_cell (Suc 0) 0 0 (0, 0)"
    by (simp add: in_cell_def bin_index_eq)
  have "samples 1 [(?z, ?z), (?z, ?z)] = valid_pairs 1 ?z ?z @ valid_pairs 1 ?z ?z"
    by (simp add: samples_same_shape[OF sh] del: One_nat_def)
  then have "samples 1 [(?z, ?z), (?z, ?z)] = replicate k (0, 0) @ replicate k (0, 0)"
    by (simp only: vp)
  then have "hist_counts 1 (samples 1 [(?z, ?z), (?z, ?z)]) = [[k + k]]"
    by (simp add: hist_counts_def cell)
  then show ?thesis
    using calls_same_shape_ok[OF sh, of 1] by (simp add: accumulate_iff astype_int32_def)
qed

lemma int32_wrap_example:
  "accumulate 1 [(vec (replicate (2 ^ 30) 0), vec (replicate (2 ^ 30) 0)),
                 (vec (replicate (2 ^ 30) 0), vec (replicate (2 ^ 30) 0))] = Inr [[2 ^ 31]]
   \<and> matrix_sum [[2 ^ 31]] = - (2 ^ 31)"
proof -
  have "(of_nat (2 ^ 30 + 2 ^ 30) :: 32 word) = 2 ^ 31" by simp
  then show ?thesis
    by (simp only: accumulate_constant) (simp add: matrix_sum_def)
qed

lemma of_nat_succ_le:
  assumes "k < n"
  shows "rat_of_nat k + 1 \<le> rat_of_nat n"
proof -
  from assms have "Suc k \<le> n" by simp
  then have "rat_of_nat (Suc k) \<le> rat_of_nat n" by (simp only: of_nat_le_iff)
  then show ?thesis by simp
qed

lemma floor_eq_nat:
  assumes "0 \<le> x"
  shows "(nat \<lfloor>x\<rfloor> = k) = (rat_of_nat k \<le> x \<and> x < rat_of_nat k + 1)"
proof -
  have "(\<lfloor>x\<rfloor> = int k) = (of_int (int k) \<le> x \<and> x < of_int (int k) + 1)"
    by (rule floor_eq_iff)
  moreover have "0 \<le> \<lfloor>x\<rfloor>" using assms by simp
  ultimately show ?thesis by auto
qed

lemma bin_index_Some_iff:
  assumes "k < n"
  shows "bin_index n x = Some k \<longleftrightarrow>
           (rat_of_nat k \<le> x \<and> x < rat_of_nat k + 1) \<or> (x = rat_of_nat n \<and> k = n - 1)"
proof (cases "0 \<le> x \<and> x < rat_of_nat n")
  case True
  then have "x \<noteq> rat_of_nat n" by simp
  with True show ?thesis by (simp add: bin_index_eq floor_eq_nat)
next
  case False
  have "\<not> (rat_of_nat k \<le> x \<and> x < rat_of_nat k + 1)"
  proof
    assume h: "rat_of_nat k \<le> x \<and> x < rat_of_nat k + 1"
    have "0 \<le> rat_of_nat k" by simp
    with h of_nat_succ_le[OF assms] have "0 \<le> x \<and> x < rat_of_nat n" by linarith
    with False show False by simp
  qed
  with False assms show ?thesis by (auto simp: bin_index_eq)
qed

lemma in_cell_valid:
  assumes "r < n" "c < n"
  shows "(valid_label n (fst z) \<and> in_cell n r c z) = counted_in n r c z"
proof -
  have v: "rat_of_nat r \<le> fst z \<and> fst z < rat_of_nat r + 1 \<Longrightarrow> valid_label n (fst z)"
  proof -
    assume h: "rat_of_nat r \<le> fst z \<and> fst z < rat_of_nat r + 1"
    have "0 \<le> rat_of_nat r" by simp
    with h of_nat_succ_le[OF assms(1)] show ?thesis
      unfolding valid_label_def by linarith
  qed
  have nv: "fst z = rat_of_nat n \<Longrightarrow> \<not> valid_label n (fst z)"
    by (simp add: valid_label_def)
  show ?thesis
    unfolding in_cell_def counted_in_def bin_index_Some_iff[OF assms(1)] bin_index_Some_iff[OF assms(2)]
    using v nv by blast
qed

lemma mat_add_nth:
  assumes "square n a" "square n b" "r < n" "c < n"
  shows "mat_add a b ! r ! c = a ! r ! c + b ! r ! c"
proof -
  have "length (a ! r) = n" "length (b ! r) = n"
    using assms by (simp_all add: square_def list_all_length)
  then show ?thesis
    using assms by (simp add: mat_add_def square_def)
qed

lemma astype_hist_nth:
  assumes "r < n" "c < n"
  shows "astype_int32 (hist_counts n xs) ! r ! c = of_nat (length (filter (in_cell n r c) xs))"
  using assms by (simp add: astype_int32_def hist_counts_def)

text \<open>
  C10. One \<^verbatim>\<open>add\<close> call with arrays of equal shape (fewer than \<open>2^31\<close> pixels) never
  raises an exception, whatever the predicted labels are. It increases cell \<open>(r, c)\<close> by the
  number of pixel pairs with target label in \<open>[r, r + 1)\<close> and predicted label in
  \<open>[c, c + 1)\<close>, to which the last column adds the pairs whose predicted label is exactly
  \<open>num_classes\<close>. A pair whose predicted label is below 0 or above \<open>num_classes\<close> is counted
  in no cell.
\<close>

theorem add_cell_counts:
  assumes "wf_array pred" "wf_array target" "shape pred = shape target" "shape target \<noteq> []"
    and "conf cm < length h" "square (num_classes cm) (h ! conf cm)"
    and "r < num_classes cm" "c < num_classes cm"
    and "length (data target) < 2 ^ 31"
  shows "\<exists>h'. ConfusionMatrix_add cm pred target h = Inr h'
           \<and> h' ! conf cm ! r ! c
             = h ! conf cm ! r ! c
               + of_nat (length (filter (counted_in (num_classes cm) r c)
                                   (zip (data target) (data pred))))"
proof -
  let ?n = "num_classes cm"
  let ?H = "astype_int32 (hist_counts ?n (valid_pairs ?n pred target))"
  have pos: "0 < ?n" using assms(7) by simp
  have step: "ConfusionMatrix_add cm pred target h = Inr (h[conf cm := mat_add (h ! conf cm) ?H])"
    by (rule cm_add_same_shape[OF assms(1-4) pos])
  have "filter (in_cell ?n r c) (valid_pairs ?n pred target)
        = filter (counted_in ?n r c) (zip (data target) (data pred))"
    unfolding valid_pairs_def filter_filter
    by (rule filter_cong[OF refl]) (use in_cell_valid[OF assms(7,8)] in blast)
  then have "?H ! r ! c = of_nat (length (filter (counted_in ?n r c) (zip (data target) (data pred))))"
    by (simp add: astype_hist_nth[OF assms(7,8)])
  then have "mat_add (h ! conf cm) ?H ! r ! c
        = h ! conf cm ! r ! c
          + of_nat (length (filter (counted_in ?n r c) (zip (data target) (data pred))))"
    by (simp add: mat_add_nth[OF assms(6) square_astype_hist assms(7,8)])
  then show ?thesis
    using step assms(5) by simp
qed

theorem add_cell_counts_witness:
  "wf_array (vec [0, -1, 2, 3, 1/2]) \<and> wf_array (vec [1, 1, 1, 1, 1])
   \<and> shape (vec [0, -1, 2, 3, 1/2]) = shape (vec [1, 1, 1, 1, 1]) \<and> shape (vec [1, 1, 1, 1, 1]) \<noteq> []
   \<and> square 2 ([[[5, 0], [0, 7 :: 32 word]]] ! 0)
   \<and> length (data (vec [1, 1, 1, 1, 1])) < 2 ^ 31
   \<and> length (filter (counted_in 2 1 1) (zip (data (vec [1, 1, 1, 1, 1])) (data (vec [0, -1, 2, 3, 1/2])))) = 1
   \<and> (\<exists>h'. ConfusionMatrix_add \<lparr>num_classes = 2, normalized = False, conf = 0\<rparr>
              (vec [0, -1, 2, 3, 1/2]) (vec [1, 1, 1, 1, 1]) [[[5, 0], [0, 7]]] = Inr h'
            \<and> h' ! 0 ! 1 ! 1 = 8)"
proof -
  let ?cm = "\<lparr>num_classes = 2, normalized = False, conf = 0\<rparr>"
  let ?p = "vec [0, -1, 2, 3, 1/2]" and ?t = "vec [1, 1, 1, 1, 1]"
  let ?h = "[[[5, 0], [0, 7 :: 32 word]]]"
  have a: "wf_array ?p" "wf_array ?t" "shape ?p = shape ?t" "shape ?t \<noteq> []"
    by (simp_all add: vec_def wf_array_def)
  have b: "conf ?cm < length ?h" "square (num_classes ?cm) (?h ! conf ?cm)"
    "1 < num_classes ?cm"
    by (simp_all add: square_def)
  have cnt: "length (filter (counted_in 2 1 1) (zip (data ?t) (data ?p))) = 1"
    by (simp add: vec_def counted_in_def)
  have sz: "length (data ?t) < 2 ^ 31" by (simp add: vec_def)
  from add_cell_counts[OF a b(1,2) b(3) b(3) sz]
  obtain h' where run: "ConfusionMatrix_add ?cm ?p ?t ?h = Inr h'"
    and cell: "h' ! conf ?cm ! 1 ! 1 = ?h ! conf ?cm ! 1 ! 1
       + of_nat (length (filter (counted_in (num_classes ?cm) 1 1) (zip (data ?t) (data ?p))))"
    by blast
  have "num_classes ?cm = 2" "conf ?cm = 0" by simp_all
  with cell cnt have "h' ! 0 ! 1 ! 1 = 8" by simp
  with run have "\<exists>h'. ConfusionMatrix_add ?cm ?p ?t ?h = Inr h' \<and> h' ! 0 ! 1 ! 1 = 8"
    by blast
  moreover have "square 2 (?h ! 0)" using b(2) by simp
  ultimately show ?thesis using a cnt sz by blast
qed

section \<open>Arrays of different shapes\<close>

lemma ravel_less: "list_all2 (<) idx s \<Longrightarrow> ravel s idx < prod_list s"
proof (induction idx s rule: list_all2_induct)
  case Nil
  show ?case by simp
next
  case (Cons i idx d s)
  have "i * prod_list s + ravel s idx < i * prod_list s + prod_list s"
    using Cons.IH by simp
  also have "\<dots> = Suc i * prod_list s" by simp
  also have "\<dots> \<le> d * prod_list s"
    using Cons.hyps(1) by (intro mult_le_mono1) simp
  finally show ?case by simp
qed

lemma block_length:
  assumes wf: "length d = prod_list s" and r: "r \<le> length s"
    and idx: "length idx = r" "in_bounds s idx"
  shows "length (take (prod_list (drop r s)) (drop (ravel (take r s) idx * prod_list (drop r s)) d))
         = prod_list (drop r s)"
proof -
  let ?blk = "prod_list (drop r s)"
  have "ravel (take r s) idx < prod_list (take r s)"
    using idx by (intro ravel_less) (simp add: in_bounds_def)
  then have "Suc (ravel (take r s) idx) * ?blk \<le> prod_list (take r s) * ?blk"
    by (intro mult_le_mono1) simp
  also have "\<dots> = prod_list s"
    by (metis append_take_drop_id prod_list.append)
  finally have "ravel (take r s) idx * ?blk + ?blk \<le> length d"
    by (simp add: wf)
  then show ?thesis by simp
qed

lemma length_concat_blocks:
  assumes "\<forall>x \<in> set xs. length (f x) = b"
  shows "length (concat (map f xs)) = length xs * b"
  using assms by (induction xs) auto

lemma valid_positions_length:
  "idx \<in> set (valid_positions n target) \<Longrightarrow> length idx = length (shape target)"
  unfolding valid_positions_def using indices_shape by (auto dest!: set_zip_leftD)

lemma index_by_target:
  assumes "wf_array target"
  shows "index_by (to_numpy target) (length (shape target)) (valid_positions n target)
         = Inr \<lparr>is_tensor = False, shape = [length (filter (valid_label n) (data target))],
                data = filter (valid_label n) (data target)\<rparr>"
proof -
  have l: "length (data (to_numpy target)) = prod_list (shape (to_numpy target))"
    using assms by (simp add: wf_array_def)
  have "is_tensor (to_numpy target) = False" by (simp add: to_numpy_def)
  with index_by_same_shape[OF l l, of "valid_label n"] show ?thesis
    by (simp add: valid_positions_def filter_zip_same)
qed

lemma length_valid_positions:
  assumes "wf_array target"
  shows "length (valid_positions n target) = length (filter (valid_label n) (data target))"
proof -
  have "length (indices (shape target)) = length (data target)"
    using assms by (simp add: length_indices wf_array_def)
  then have "map snd (filter (\<lambda>(idx, x). valid_label n x) (zip (indices (shape target)) (data target)))
             = filter (valid_label n) (data target)"
    by (rule map_snd_filter_zip)
  then have "length (filter (\<lambda>(idx, x). valid_label n x) (zip (indices (shape target)) (data target)))
             = length (filter (valid_label n) (data target))"
    by (metis length_map)
  then show ?thesis by (simp add: valid_positions_def)
qed

lemma add_sample_outcome:
  assumes "wf_array pred" "wf_array target" "shape target \<noteq> []" "0 < n"
  shows "length (shape pred) < length (shape target)
           \<or> \<not> list_all (in_bounds (shape pred)) (valid_positions n target)
         \<Longrightarrow> add_sample n pred target = Inl IndexError"
    and "\<not> (length (shape pred) < length (shape target)
            \<or> \<not> list_all (in_bounds (shape pred)) (valid_positions n target))
         \<Longrightarrow> valid_positions n target \<noteq> []
               \<and> prod_list (drop (length (shape target)) (shape pred)) \<noteq> 1
         \<Longrightarrow> add_sample n pred target = Inl ValueError"
    and "\<not> (length (shape pred) < length (shape target)
            \<or> \<not> list_all (in_bounds (shape pred)) (valid_positions n target))
         \<Longrightarrow> \<not> (valid_positions n target \<noteq> []
               \<and> prod_list (drop (length (shape target)) (shape pred)) \<noteq> 1)
         \<Longrightarrow> \<exists>s. add_sample n pred target = Inr s"
proof -
  let ?r = "length (shape target)"
  let ?vi = "valid_positions n target"
  let ?blk = "prod_list (drop ?r (shape pred))"
  let ?c1 = "length (shape pred) < ?r \<or> \<not> list_all (in_bounds (shape pred)) ?vi"
  have w: "np_where (to_numpy target) (valid_label n) = Inr ?vi"
    using assms(3) by (simp add: np_where_def valid_positions_def)
  have nn: "n \<noteq> 0" using assms(4) by simp
  show "?c1 \<Longrightarrow> add_sample n pred target = Inl IndexError"
  proof -
    assume ?c1
    then have "index_by (to_numpy pred) ?r ?vi = Inl IndexError"
      by (auto simp: index_by_def)
    then show "add_sample n pred target = Inl IndexError"
      unfolding add_sample_def Let_def by (simp add: w)
  qed
  have rest: "add_sample n pred target
              = (if ?vi = [] \<or> ?blk = 1
                 then Inr (zip (filter (valid_label n) (data target))
                     (concat (map (\<lambda>idx. take ?blk (drop (ravel (take ?r (shape pred)) idx * ?blk)
                                                      (data pred))) ?vi)))
                 else Inl ValueError)"
    if nc1: "\<not> ?c1"
  proof -
    from nc1 have rk: "?r \<le> length (shape pred)" and ib: "list_all (in_bounds (shape pred)) ?vi"
      by simp_all
    let ?pd = "concat (map (\<lambda>idx. take ?blk (drop (ravel (take ?r (shape pred)) idx * ?blk) (data pred))) ?vi)"
    have ip: "index_by (to_numpy pred) ?r ?vi
              = Inr \<lparr>is_tensor = False, shape = length ?vi # drop ?r (shape pred), data = ?pd\<rparr>"
      using nc1 by (simp add: index_by_def Let_def to_numpy_def)
    have "\<forall>idx \<in> set ?vi. length (take ?blk (drop (ravel (take ?r (shape pred)) idx * ?blk) (data pred))) = ?blk"
    proof
      fix idx assume i: "idx \<in> set ?vi"
      have "length (data pred) = prod_list (shape pred)"
        using assms(1) by (simp add: wf_array_def)
      moreover have "length idx = ?r" using i by (rule valid_positions_length)
      moreover have "in_bounds (shape pred) idx" using ib i by (simp add: list_all_iff)
      ultimately show "length (take ?blk (drop (ravel (take ?r (shape pred)) idx * ?blk) (data pred))) = ?blk"
        using rk by (intro block_length)
    qed
    then have lpd: "length ?pd = length ?vi * ?blk"
      by (rule length_concat_blocks)
    have lt: "length (filter (valid_label n) (data target)) = length ?vi"
      by (simp add: length_valid_positions[OF assms(2)])
    have eq: "(length ?vi = length ?vi * ?blk) = (?vi = [] \<or> ?blk = 1)"
      by (cases "?vi = []") auto
    show ?thesis
      unfolding add_sample_def Let_def
      by (simp add: w ip index_by_target[OF assms(2)] vstack_T_def flatten_def lpd lt eq
            histogramdd_def nn del: One_nat_def)
  qed
  show "\<not> ?c1 \<Longrightarrow> ?vi \<noteq> [] \<and> ?blk \<noteq> 1 \<Longrightarrow> add_sample n pred target = Inl ValueError"
    using rest by simp
  show "\<not> ?c1 \<Longrightarrow> \<not> (?vi \<noteq> [] \<and> ?blk \<noteq> 1) \<Longrightarrow> \<exists>s. add_sample n pred target = Inr s"
    using rest by auto
qed

text \<open>
  C3, as the code has it. \<^verbatim>\<open>add\<close> has no shape check of its own. It raises \<^verbatim>\<open>IndexError\<close>
  exactly when \<open>pred\<close> has fewer axes than \<open>target\<close>, or a position at which \<open>target\<close> holds a
  label in \<open>[0, num_classes)\<close> lies outside \<open>pred\<close>. It raises \<^verbatim>\<open>ValueError\<close> (from
  \<^verbatim>\<open>np.vstack\<close>) exactly when neither is the case, \<open>target\<close> holds such a label and the further
  axes of \<open>pred\<close> have extents whose product is not 1. It raises nothing else, and every other
  pair of arrays is accepted, equal shapes or not.
\<close>

theorem add_raises_iff:
  assumes "wf_array pred" "wf_array target" "shape target \<noteq> []" "0 < num_classes cm"
  shows "(ConfusionMatrix_add cm pred target h = Inl IndexError \<longleftrightarrow>
            length (shape pred) < length (shape target)
            \<or> \<not> list_all (in_bounds (shape pred)) (valid_positions (num_classes cm) target))
         \<and> (ConfusionMatrix_add cm pred target h = Inl ValueError \<longleftrightarrow>
            \<not> length (shape pred) < length (shape target)
            \<and> list_all (in_bounds (shape pred)) (valid_positions (num_classes cm) target)
            \<and> valid_positions (num_classes cm) target \<noteq> []
            \<and> prod_list (drop (length (shape target)) (shape pred)) \<noteq> 1)
         \<and> ((\<exists>e. ConfusionMatrix_add cm pred target h = Inl e) \<longleftrightarrow>
            length (shape pred) < length (shape target)
            \<or> \<not> list_all (in_bounds (shape pred)) (valid_positions (num_classes cm) target)
            \<or> (valid_positions (num_classes cm) target \<noteq> []
                \<and> prod_list (drop (length (shape target)) (shape pred)) \<noteq> 1))"
proof -
  let ?n = "num_classes cm"
  let ?c1 = "length (shape pred) < length (shape target)
            \<or> \<not> list_all (in_bounds (shape pred)) (valid_positions ?n target)"
  let ?c2 = "valid_positions ?n target \<noteq> []
            \<and> prod_list (drop (length (shape target)) (shape pred)) \<noteq> 1"
  note o = add_sample_outcome[OF assms]
  consider (a) ?c1 | (b) "\<not> ?c1" ?c2 | (c) "\<not> ?c1" "\<not> ?c2" by blast
  then show ?thesis
  proof cases
    case a
    then have "ConfusionMatrix_add cm pred target h = Inl IndexError"
      by (simp add: cm_add_sample o(1))
    with a show ?thesis by auto
  next
    case b
    then have "ConfusionMatrix_add cm pred target h = Inl ValueError"
      by (simp add: cm_add_sample o(2))
    with b show ?thesis by auto
  next
    case c
    then obtain s where "add_sample ?n pred target = Inr s"
      using o(3) by blast
    then have "\<exists>h'. ConfusionMatrix_add cm pred target h = Inr h'"
      by (simp add: cm_add_sample)
    with c show ?thesis by auto
  qed
qed

theorem add_raises_iff_witness:
  "wf_array (vec [0, 1]) \<and> wf_array (vec [0, 1, 1]) \<and> shape (vec [0, 1, 1]) \<noteq> []
   \<and> wf_array (array [3, 2] [0, 1, 1, 0, 1, 1])
   \<and> 0 < num_classes \<lparr>num_classes = 2, normalized = False, conf = 0\<rparr>
   \<and> \<not> list_all (in_bounds (shape (vec [0, 1]))) (valid_positions 2 (vec [0, 1, 1]))
   \<and> ConfusionMatrix_add \<lparr>num_classes = 2, normalized = False, conf = 0\<rparr>
         (vec [0, 1]) (vec [0, 1, 1]) [[[0, 0], [0, 0]]] = Inl IndexError
   \<and> list_all (in_bounds (shape (array [3, 2] [0, 1, 1, 0, 1, 1])))
         (valid_positions 2 (vec [0, 1, 1]))
   \<and> valid_positions 2 (vec [0, 1, 1]) \<noteq> []
   \<and> prod_list (drop (length (shape (vec [0, 1, 1])))
         (shape (array [3, 2] [0, 1, 1, 0, 1, 1]))) = 2
   \<and> ConfusionMatrix_add \<lparr>num_classes = 2, normalized = False, conf = 0\<rparr>
         (array [3, 2] [0, 1, 1, 0, 1, 1]) (vec [0, 1, 1]) [[[0, 0], [0, 0]]] = Inl ValueError"
proof -
  let ?cm = "\<lparr>num_classes = 2, normalized = False, conf = 0\<rparr>"
  let ?p = "array [3, 2] [0, 1, 1, 0, 1, 1]"
  have a: "wf_array (vec [0, 1])" "wf_array (vec [0, 1, 1])" "shape (vec [0, 1, 1]) \<noteq> []"
    "0 < num_classes ?cm"
    by (simp_all add: vec_def wf_array_def)
  have a': "wf_array ?p" "wf_array (vec [0, 1, 1])" "shape (vec [0, 1, 1]) \<noteq> []"
    "0 < num_classes ?cm"
    by (simp_all add: vec_def array_def wf_array_def)
  have b: "\<not> list_all (in_bounds (shape (vec [0, 1]))) (valid_positions 2 (vec [0, 1, 1]))"
    by (simp add: vec_def valid_positions_def valid_label_def in_bounds_def upt_rec)
  have c: "list_all (in_bounds (shape ?p)) (valid_positions 2 (vec [0, 1, 1]))"
    "valid_positions 2 (vec [0, 1, 1]) \<noteq> []"
    "prod_list (drop (length (shape (vec [0, 1, 1]))) (shape ?p)) = 2"
    by (simp_all add: vec_def array_def valid_positions_def valid_label_def in_bounds_def upt_rec)
  have n: "num_classes ?cm = 2" by simp
  from add_raises_iff[OF a, of "[[[0, 0], [0, 0]]]"] b n
  have i: "ConfusionMatrix_add ?cm (vec [0, 1]) (vec [0, 1, 1]) [[[0, 0], [0, 0]]] = Inl IndexError"
    by simp
  from add_raises_iff[OF a', of "[[[0, 0], [0, 0]]]"] c n
  have v: "ConfusionMatrix_add ?cm ?p (vec [0, 1, 1]) [[[0, 0], [0, 0]]] = Inl ValueError"
    by (simp add: vec_def array_def)
  from a a'(1) b c i v show ?thesis by blast
qed

text \<open>
  C3 as stated fails: a prediction of 5 labels against a target of 3 labels is accepted, and
  its first 3 labels are counted.
\<close>

theorem add_raises_counterexample:
  "shape (vec [0, 1, 1, 5, 2]) \<noteq> shape (vec [0, 1, 0])
   \<and> ConfusionMatrix_add \<lparr>num_classes = 2, normalized = False, conf = 0\<rparr>
         (vec [0, 1, 1, 5, 2]) (vec [0, 1, 0]) [[[0, 0], [0, 0]]] = Inr [[[1, 1], [0, 1]]]"
proof -
  have "shape (vec [0, 1, 1, 5, 2]) \<noteq> shape (vec [0, 1, 0])"
    by (simp add: vec_def)
  moreover have "ConfusionMatrix_add \<lparr>num_classes = 2, normalized = False, conf = 0\<rparr>
         (vec [0, 1, 1, 5, 2]) (vec [0, 1, 0]) [[[0, 0], [0, 0]]] = Inr [[[1, 1], [0, 1]]]"
    by code_simp
  ultimately show ?thesis by blast
qed

section \<open>Construction of the metric\<close>

text \<open>
  C9, as the code has it. The constructor raises (\<^verbatim>\<open>ValueError\<close>) exactly when
  \<^verbatim>\<open>ignore_indices\<close> is neither \<^verbatim>\<open>None\<close>, nor an int, nor iterable; what an iterable holds is
  not looked at.
\<close>

theorem metric_init_raises_iff:
  "((\<exists>e. ConfusionMatrixBasedMetric_init n rp nrm ig h = Inl e)
      \<longleftrightarrow> \<not> (ig = PNone \<or> py_is_int ig \<or> py_iterable ig))
   \<and> ConfusionMatrixBasedMetric_init n rp nrm ig h \<noteq> Inl IndexError
   \<and> ConfusionMatrixBasedMetric_init n rp nrm ig h \<noteq> Inl TypeError"
  by (cases ig) (simp_all add: ConfusionMatrixBasedMetric_init_def cm_init_eq)

theorem metric_init_raises_iff_witness:
  "(\<exists>e. ConfusionMatrixBasedMetric_init 2 False False (PFloat (1 / 2)) [] = Inl e)
   \<and> (\<exists>m. ConfusionMatrixBasedMetric_init 2 False False (PSeq [SInt 0, SInt 1]) [] = Inr m)"
proof -
  have "\<exists>e. ConfusionMatrixBasedMetric_init 2 False False (PFloat (1 / 2)) [] = Inl e"
    using metric_init_raises_iff[of 2 False False "PFloat (1 / 2)" "[]"] by simp
  moreover have "\<not> (\<exists>e. ConfusionMatrixBasedMetric_init 2 False False (PSeq [SInt 0, SInt 1]) [] = Inl e)"
    using metric_init_raises_iff[of 2 False False "PSeq [SInt 0, SInt 1]" "[]"] by simp
  then have "\<exists>m. ConfusionMatrixBasedMetric_init 2 False False (PSeq [SInt 0, SInt 1]) [] = Inr m"
    by (cases "ConfusionMatrixBasedMetric_init 2 False False (PSeq [SInt 0, SInt 1]) []") auto
  ultimately show ?thesis by blast
qed

text \<open>
  C9 as stated fails: a list holding a string is neither an integer nor an iterable of
  integers, and the constructor accepts it.
\<close>

theorem metric_init_counterexample:
  "\<not> int_or_ints (PSeq [SStr ''a'']) \<and> PSeq [SStr ''a''] \<noteq> PNone
   \<and> ConfusionMatrixBasedMetric_init 2 False False (PSeq [SStr ''a'']) []
       = Inr (\<lparr>conf_matrix = \<lparr>num_classes = 2, normalized = False, conf = 0\<rparr>,
               reduced_probs = False, ignore_indices = Some [SStr ''a'']\<rparr>,
              [[[0, 0], [0, 0]]])"
  by (simp add: ConfusionMatrixBasedMetric_init_def cm_init_eq zeros_def numeral_2_eq_2)

section \<open>Probabilities as predictions\<close>

lemma metric_add_tensor:
  assumes "is_tensor pred" "shape pred = n # c # rest" "0 < c"
  shows "ConfusionMatrixBasedMetric_add m pred target h = spec_add m pred target h"
  using assms by (simp add: ConfusionMatrixBasedMetric_add_def spec_add_def argmax_dim1_def spec_argmax_def Let_def)

text \<open>
  C6 fails for a NumPy array of probabilities, which the docstring of \<^verbatim>\<open>add\<close> admits:
  \<^verbatim>\<open>pred.argmax(dim=1)\<close> raises \<^verbatim>\<open>TypeError\<close>, where taking the arg-max over the class axis and
  adding the labels succeeds. Here 2 pixels, 2 classes: the probabilities \<open>(0.9, 0.1)\<close> and
  \<open>(0.2, 0.8)\<close>, the ground truth 0 and 1.
\<close>

theorem metric_add_numpy_probabilities:
  "ConfusionMatrixBasedMetric_add \<lparr>conf_matrix = \<lparr>num_classes = 2, normalized = False, conf = 0\<rparr>,
                reduced_probs = False, ignore_indices = None\<rparr>
     (array [2, 2] [9 / 10, 1 / 10, 2 / 10, 8 / 10]) (vec [0, 1]) [[[0, 0], [0, 0]]]
   = Inl TypeError
   \<and> spec_argmax (array [2, 2] [9 / 10, 1 / 10, 2 / 10, 8 / 10]) = vec [0, 1]
   \<and> spec_add \<lparr>conf_matrix = \<lparr>num_classes = 2, normalized = False, conf = 0\<rparr>,
                reduced_probs = False, ignore_indices = None\<rparr>
     (array [2, 2] [9 / 10, 1 / 10, 2 / 10, 8 / 10]) (vec [0, 1]) [[[0, 0], [0, 0]]]
   = Inr [[[1, 0], [0, 1]]]"
proof -
  let ?m = "\<lparr>conf_matrix = \<lparr>num_classes = 2, normalized = False, conf = 0\<rparr>,
                reduced_probs = False, ignore_indices = None\<rparr>"
  let ?p = "array [2, 2] [9 / 10, 1 / 10, 2 / 10, 8 / 10]"
  have a: "ConfusionMatrixBasedMetric_add ?m ?p (vec [0, 1]) [[[0, 0], [0, 0]]] = Inl TypeError"
    by (simp add: ConfusionMatrixBasedMetric_add_def argmax_dim1_def array_def)
  have b: "spec_argmax ?p = vec [0, 1]"
    by code_simp
  have c: "spec_add ?m ?p (vec [0, 1]) [[[0, 0], [0, 0]]] = Inr [[[1, 0], [0, 1]]]"
    by code_simp
  from a b c show ?thesis by blast
qed

section \<open>What value() does to the stored counts\<close>

lemma cm_value_keeps_heap: "snd (ConfusionMatrix_value cm h) = h"
  by (simp add: ConfusionMatrix_value_def)

lemma dice_value_keeps_heap:
  assumes "ignore_indices m = None \<or> normalized (conf_matrix m)"
    and "DiceCoefficient_value m h = Inr (res, h')"
  shows "h' = h"
  using assms
  by (auto simp: DiceCoefficient_value_def ConfusionMatrix_value_def Let_def split: option.splits if_splits)

text \<open>
  C2 fails when \<^verbatim>\<open>normalized\<close> is false and \<^verbatim>\<open>ignore_indices\<close> is set: \<^verbatim>\<open>value()\<close> of the
  matrix returns the stored array itself, and \<^verbatim>\<open>DiceCoefficient.value()\<close> zeroes the ignored
  rows and columns in it. With 2 classes and class 0 ignored, after
  \<^verbatim>\<open>add(pred=[0, 1], target=[0, 1])\<close> the stored counts are \<open>[[1, 0], [0, 1]]\<close>; after
  \<^verbatim>\<open>value()\<close> they are \<open>[[0, 0], [0, 1]]\<close>.
\<close>

theorem dice_value_changes_counts:
  "ConfusionMatrixBasedMetric_init 2 True False (PInt 0) []
     = Inr (\<lparr>conf_matrix = \<lparr>num_classes = 2, normalized = False, conf = 0\<rparr>,
             reduced_probs = True, ignore_indices = Some [SInt 0]\<rparr>, [[[0, 0], [0, 0]]])
   \<and> ConfusionMatrixBasedMetric_add \<lparr>conf_matrix = \<lparr>num_classes = 2, normalized = False, conf = 0\<rparr>,
                  reduced_probs = True, ignore_indices = Some [SInt 0]\<rparr>
        (vec [0, 1]) (vec [0, 1]) [[[0, 0], [0, 0]]]
     = Inr [[[1, 0], [0, 1]]]
   \<and> DiceCoefficient_value \<lparr>conf_matrix = \<lparr>num_classes = 2, normalized = False, conf = 0\<rparr>,
                  reduced_probs = True, ignore_indices = Some [SInt 0]\<rparr>
        [[[1, 0], [0, 1]]]
     = Inr ((Fin 1, [NaN, Fin 1]), [[[0, 0], [0, 1]]])"
proof -
  let ?m = "\<lparr>conf_matrix = \<lparr>num_classes = 2, normalized = False, conf = 0\<rparr>,
             reduced_probs = True, ignore_indices = Some [SInt 0]\<rparr>"
  have a: "ConfusionMatrixBasedMetric_init 2 True False (PInt 0) [] = Inr (?m, [[[0, 0], [0, 0]]])"
    by (simp add: ConfusionMatrixBasedMetric_init_def cm_init_eq zeros_def numeral_2_eq_2)
  have b: "ConfusionMatrixBasedMetric_add ?m (vec [0, 1]) (vec [0, 1]) [[[0, 0], [0, 0]]] = Inr [[[1, 0], [0, 1]]]"
    by code_simp
  have c: "DiceCoefficient_value ?m [[[1, 0], [0, 1]]] = Inr ((Fin 1, [NaN, Fin 1]), [[[0, 0], [0, 1]]])"
    by code_simp
  from a b c show ?thesis by blast
qed

lemma zero_cols_nth:
  assumes "r < length m" "c < length (m ! r)"
  shows "zero_cols js m ! r ! c = (if c \<in> set js then 0 else m ! r ! c)"
  using assms by (simp add: zero_cols_def)

lemma zero_cols_lengths:
  "length (zero_cols js m) = length m"
  "r < length m \<Longrightarrow> length (zero_cols js m ! r) = length (m ! r)"
  by (simp_all add: zero_cols_def)

lemma zero_rows_lengths:
  "length (zero_rows js m) = length m"
  "r < length m \<Longrightarrow> length (zero_rows js m ! r) = length (m ! r)"
  by (simp_all add: zero_rows_def)

lemma zero_rows_nth:
  assumes "r < length m" "c < length (m ! r)"
  shows "zero_rows js m ! r ! c = (if r \<in> set js then 0 else m ! r ! c)"
  using assms by (simp add: zero_rows_def)

lemma zero_ignored_nth:
  assumes "r < length m" "c < length (m ! r)"
  shows "zero_rows js (zero_cols js m) ! r ! c = (if r \<in> set js \<or> c \<in> set js then 0 else m ! r ! c)"
  using assms by (simp add: zero_rows_nth zero_cols_nth zero_cols_lengths)

lemma zero_ignored_lengths:
  "length (zero_rows js (zero_cols js m)) = length m"
  "r < length m \<Longrightarrow> length (zero_rows js (zero_cols js m) ! r) = length (m ! r)"
  by (simp_all add: zero_rows_lengths zero_cols_lengths)

lemma zero_ignored_idem:
  "zero_rows js (zero_cols js (zero_rows js (zero_cols js m))) = zero_rows js (zero_cols js m)"
proof (rule nth_equalityI)
  show "length (zero_rows js (zero_cols js (zero_rows js (zero_cols js m))))
        = length (zero_rows js (zero_cols js m))"
    by (simp add: zero_ignored_lengths)
next
  fix r assume "r < length (zero_rows js (zero_cols js (zero_rows js (zero_cols js m))))"
  then have r: "r < length m" by (simp add: zero_ignored_lengths)
  show "zero_rows js (zero_cols js (zero_rows js (zero_cols js m))) ! r
        = zero_rows js (zero_cols js m) ! r"
  proof (rule nth_equalityI)
    show "length (zero_rows js (zero_cols js (zero_rows js (zero_cols js m))) ! r)
          = length (zero_rows js (zero_cols js m) ! r)"
      using r by (simp add: zero_ignored_lengths)
  next
    fix c assume "c < length (zero_rows js (zero_cols js (zero_rows js (zero_cols js m))) ! r)"
    then have c: "c < length (m ! r)" using r by (simp add: zero_ignored_lengths)
    show "zero_rows js (zero_cols js (zero_rows js (zero_cols js m))) ! r ! c
          = zero_rows js (zero_cols js m) ! r ! c"
      using r c by (simp add: zero_ignored_nth zero_ignored_lengths)
  qed
qed

text \<open>
  Whatever \<^verbatim>\<open>value()\<close> does to the store, a second call right after it returns the same
  result and changes nothing more.
\<close>

lemma dice_value_twice:
  assumes "DiceCoefficient_value m h = Inr (res, h')" "conf (conf_matrix m) < length h"
  shows "DiceCoefficient_value m h' = Inr (res, h')"
  using assms
  by (auto simp: DiceCoefficient_value_def ConfusionMatrix_value_def Let_def zero_ignored_idem
           split: option.splits if_splits)

section \<open>The Dice values\<close>

lemma square_nth:
  assumes "square n m" "r < n"
  shows "length m = n" "length (m ! r) = n"
  using assms by (simp_all add: square_def list_all_length)

lemma square_rows: "square n m \<Longrightarrow> row \<in> set m \<Longrightarrow> length row = n"
  by (simp add: square_def list_all_iff)

lemma square_map: "square n m \<Longrightarrow> square n (map (map f) m)"
  by (simp add: square_def list_all_iff)

lemma square_zero_ignored: "square n m \<Longrightarrow> square n (zero_rows js (zero_cols js m))"
  by (simp add: square_def list_all_length zero_ignored_lengths)

lemma square_normalize_rows: "square n m \<Longrightarrow> square n (normalize_rows m)"
  by (simp add: square_def list_all_iff normalize_rows_def Let_def)

lemma np_diag_nth: "c < length m \<Longrightarrow> np_diag m ! c = m ! c ! c"
  by (simp add: np_diag_def)

lemma sum_axis0_nth: "c < length m \<Longrightarrow> sum_axis0 m ! c = (\<Sum>row\<leftarrow>m. row ! c)"
  by (simp add: sum_axis0_def)

lemma sum_axis1_nth: "c < length m \<Longrightarrow> sum_axis1 m ! c = sum_list (m ! c)"
  by (simp add: sum_axis1_def)

lemma dice_formula_nth:
  assumes "c < length a" "c < length p" "c < length q"
  shows "dice_formula a p q ! c = fdiv (Fin (a ! c)) (Fin (a ! c + p ! c + q ! c))"
  using assms by (simp add: dice_formula_def)

lemma length_dice_formula:
  "length (dice_formula a p q) = min (length a) (min (length p) (length q))"
  by (simp add: dice_formula_def)

lemma length_dice_float: "square n F \<Longrightarrow> length (dice_float F) = n"
  by (simp add: dice_float_def Let_def length_dice_formula np_diag_def sum_axis0_def
        sum_axis1_def square_def)

lemma length_dice_int: "square n M \<Longrightarrow> length (dice_int M) = n"
  by (simp add: dice_int_def Let_def length_dice_formula np_diag_def sum_axis0_def
        sum_axis1_def square_def)

lemma dice_float_absent:
  assumes "square n F" "c < n" "absent F c"
  shows "dice_float F ! c = NaN"
proof -
  have l: "length F = n" using assms(1) by (simp add: square_def)
  have c: "c < length (np_diag F)" "c < length (sum_axis0 F)" "c < length (sum_axis1 F)"
    using assms(2) l by (simp_all add: np_diag_def sum_axis0_def sum_axis1_def)
  have "dice_float F ! c
        = fdiv (Fin (2 * np_diag F ! c))
            (Fin (2 * np_diag F ! c + (sum_axis0 F ! c - np_diag F ! c)
                  + (sum_axis1 F ! c - np_diag F ! c)))"
    using c by (simp add: dice_float_def Let_def dice_formula_nth)
  then show ?thesis
    using assms(3) by (simp add: absent_def)
qed

lemma column_sum_of_int:
  assumes "square n M" "c < n"
  shows "(\<Sum>row\<leftarrow>map (map (\<lambda>w. rat_of_int (sint w))) M. row ! c)
         = rat_of_int (\<Sum>row\<leftarrow>map (map sint) M. row ! c)"
proof -
  have "\<And>row. row \<in> set M \<Longrightarrow> c < length row"
    using assms square_rows by fastforce
  then have "map (\<lambda>row. map (\<lambda>w. rat_of_int (sint w)) row ! c) M
             = map (\<lambda>row. rat_of_int (map sint row ! c)) M"
    by (intro map_cong refl) simp
  then have "(\<Sum>row\<leftarrow>map (map (\<lambda>w. rat_of_int (sint w))) M. row ! c)
             = sum_list (map rat_of_int (map (\<lambda>row. map sint row ! c) M))"
    by (simp only: map_map comp_def)
  also have "\<dots> = rat_of_int (sum_list (map (\<lambda>row. map sint row ! c) M))"
    by (rule sum_list_of_int)
  finally show ?thesis by (simp only: map_map comp_def)
qed

lemma dice_int_absent:
  assumes "square n M" "c < n" "absent (map (map (\<lambda>w. rat_of_int (sint w))) M) c"
  shows "dice_int M ! c = NaN"
proof -
  let ?F = "map (map (\<lambda>w. rat_of_int (sint w))) M"
  let ?S = "map (map sint) M"
  have l: "length M = n" "length (M ! c) = n" using assms(1,2) by (rule square_nth)+
  have c: "c < length M" using l assms(2) by simp
  have tp: "np_diag ?F ! c = rat_of_int (sint (M ! c ! c))"
    using c l assms(2) by (simp add: np_diag_def del: of_int_sint)
  have col: "sum_axis0 ?F ! c = rat_of_int (sum_axis0 ?S ! c)"
    using c column_sum_of_int[OF assms(1,2)] by (simp add: sum_axis0_nth del: of_int_sint)
  have row: "sum_axis1 ?F ! c = rat_of_int (sum_axis1 ?S ! c)"
    using c by (simp add: sum_axis1_nth comp_def sum_list_of_int[symmetric] del: of_int_sint)
  from assms(3) have z: "sint (M ! c ! c) = 0"
    "sum_axis0 ?S ! c - sint (M ! c ! c) = 0" "sum_axis1 ?S ! c - sint (M ! c ! c) = 0"
    unfolding absent_def tp col row by (simp_all del: of_int_sint)
  then have w: "M ! c ! c = 0" by (simp add: signed_eq_0_iff)
  have "dice_int M ! c
        = fdiv (Fin (rat_of_int (sint (2 * (M ! c ! c)))))
            (Fin (rat_of_int (sint (2 * (M ! c ! c)))
                  + rat_of_int (sum_axis0 ?S ! c - sint (M ! c ! c))
                  + rat_of_int (sum_axis1 ?S ! c - sint (M ! c ! c))))"
    using c by (simp add: dice_int_def Let_def dice_formula_nth np_diag_def sum_axis0_def
                  sum_axis1_def del: of_int_sint)
  moreover have "sum_axis0 ?S ! c = 0" "sum_axis1 ?S ! c = 0"
    using z by simp_all
  ultimately show ?thesis
    by (simp add: w)
qed

lemma resolve_indices_in_range:
  assumes "list_all (\<lambda>v. case v of SInt i \<Rightarrow> - int n \<le> i \<and> i < int n | _ \<Rightarrow> False) vs"
  shows "\<exists>js. resolve_indices n vs = Some js"
  using assms
proof (induction vs)
  case Nil
  show ?case by simp
next
  case (Cons v vs)
  then obtain js where js: "resolve_indices n vs = Some js" by auto
  from Cons.prems obtain i where "v = SInt i" "- int n \<le> i" "i < int n"
    by (cases v) auto
  then have "resolve_index n v \<noteq> None" by simp
  with js show ?case by auto
qed

lemma np_delete_Nil: "np_delete v [] = v"
  by (simp add: np_delete_def map_nth)

lemma nanmean_fmean: "nanmean vs = fmean (filter (\<lambda>v. v \<noteq> NaN) vs)"
  by (simp add: nanmean_def fmean_def Let_def)

text \<open>
  C4, as the code has it. When every ignored index is an int in
  \<open>[-num_classes, num_classes)\<close> (or none is given), \<^verbatim>\<open>value()\<close> does not raise on any state of
  the matrix: it returns one Dice entry per class, the entry of a class with zero true
  positives, false positives and false negatives is NaN, and the mean is the arithmetic mean
  of the entries that are neither ignored nor NaN.
\<close>

theorem dice_value_defined:
  assumes "ignore_in_range m"
    and "conf (conf_matrix m) < length h"
    and "square (num_classes (conf_matrix m)) (h ! conf (conf_matrix m))"
  shows "\<exists>mdice dice h'. DiceCoefficient_value m h = Inr ((mdice, dice), h')
           \<and> length dice = num_classes (conf_matrix m)
           \<and> (\<forall>c < num_classes (conf_matrix m). absent (dice_matrix m h) c \<longrightarrow> dice ! c = NaN)
           \<and> mdice = fmean (filter (\<lambda>v. v \<noteq> NaN) (np_delete dice (ignored m)))"
proof -
  let ?cm = "conf_matrix m"
  let ?n = "num_classes ?cm"
  let ?M = "h ! conf ?cm"
  let ?f = "\<lambda>w :: 32 word. rat_of_int (sint w)"
  show ?thesis
  proof (cases "ignore_indices m")
    case None
    then have ig: "ignored m = []" by (simp add: ignored_def)
    show ?thesis
    proof (cases "normalized ?cm")
      case True
      have sq: "square ?n (normalize_rows ?M)"
        using assms(3) by (rule square_normalize_rows)
      have dm: "dice_matrix m h = normalize_rows ?M"
        using None True by (simp add: dice_matrix_def)
      have "DiceCoefficient_value m h
            = Inr ((nanmean (dice_float (normalize_rows ?M)), dice_float (normalize_rows ?M)), h)"
        using None True by (simp add: DiceCoefficient_value_def ConfusionMatrix_value_def Let_def)
      then show ?thesis
        using dice_float_absent[OF sq] length_dice_float[OF sq]
        by (simp add: dm ig np_delete_Nil nanmean_fmean)
    next
      case False
      have dm: "dice_matrix m h = map (map ?f) ?M"
        using None False by (simp add: dice_matrix_def del: of_int_sint)
      have "DiceCoefficient_value m h = Inr ((nanmean (dice_int ?M), dice_int ?M), h)"
        using None False by (simp add: DiceCoefficient_value_def ConfusionMatrix_value_def Let_def)
      then show ?thesis
        using dice_int_absent[OF assms(3)] length_dice_int[OF assms(3)]
        by (simp add: dm ig np_delete_Nil nanmean_fmean del: of_int_sint)
    qed
  next
    case (Some vs)
    with assms(1) obtain js where js: "resolve_indices ?n vs = Some js"
      using resolve_indices_in_range[of ?n vs] by (auto simp: ignore_in_range_def)
    then have ig: "ignored m = js" using Some by (simp add: ignored_def)
    show ?thesis
    proof (cases "normalized ?cm")
      case True
      let ?F = "zero_rows js (zero_cols js (normalize_rows ?M))"
      have sq: "square ?n ?F"
        using assms(3) by (intro square_zero_ignored square_normalize_rows)
      have dm: "dice_matrix m h = ?F"
        using Some True by (simp add: dice_matrix_def ig)
      have "DiceCoefficient_value m h = Inr ((nanmean (np_delete (dice_float ?F) js), dice_float ?F), h)"
        using Some True js by (simp add: DiceCoefficient_value_def ConfusionMatrix_value_def Let_def)
      then show ?thesis
        using dice_float_absent[OF sq] length_dice_float[OF sq]
        by (simp add: dm ig nanmean_fmean)
    next
      case False
      let ?Z = "zero_rows js (zero_cols js ?M)"
      have sq: "square ?n ?Z"
        using assms(3) by (rule square_zero_ignored)
      have dm: "dice_matrix m h = map (map ?f) ?Z"
        using Some False by (simp add: dice_matrix_def ig del: of_int_sint)
      have "DiceCoefficient_value m h
            = Inr ((nanmean (np_delete (dice_int ?Z) js), dice_int ?Z), h[conf ?cm := ?Z])"
        using Some False js assms(2) by (simp add: DiceCoefficient_value_def ConfusionMatrix_value_def Let_def)
      then show ?thesis
        using dice_int_absent[OF sq] length_dice_int[OF sq]
        by (simp add: dm ig nanmean_fmean del: of_int_sint)
    qed
  qed
qed

theorem dice_value_defined_witness:
  "ignore_in_range \<lparr>conf_matrix = \<lparr>num_classes = 3, normalized = False, conf = 0\<rparr>,
                     reduced_probs = True, ignore_indices = Some [SInt (- 1)]\<rparr>
   \<and> square 3 ([[[5, 0, 0], [0, 0, 0], [0, 3, 2 :: 32 word]]] ! 0)
   \<and> absent (dice_matrix \<lparr>conf_matrix = \<lparr>num_classes = 3, normalized = False, conf = 0\<rparr>,
                            reduced_probs = True, ignore_indices = Some [SInt (- 1)]\<rparr>
               [[[5, 0, 0], [0, 0, 0], [0, 3, 2]]]) 1
   \<and> (\<exists>mdice dice h'.
         DiceCoefficient_value \<lparr>conf_matrix = \<lparr>num_classes = 3, normalized = False, conf = 0\<rparr>,
                      reduced_probs = True, ignore_indices = Some [SInt (- 1)]\<rparr>
           [[[5, 0, 0], [0, 0, 0], [0, 3, 2]]] = Inr ((mdice, dice), h')
         \<and> length dice = 3 \<and> dice ! 1 = NaN)"
proof -
  let ?m = "\<lparr>conf_matrix = \<lparr>num_classes = 3, normalized = False, conf = 0\<rparr>,
             reduced_probs = True, ignore_indices = Some [SInt (- 1)]\<rparr>"
  let ?h = "[[[5, 0, 0], [0, 0, 0], [0, 3, 2 :: 32 word]]]"
  have a: "ignore_in_range ?m"
    by (simp add: ignore_in_range_def)
  have b: "conf (conf_matrix ?m) < length ?h" by simp
  have c: "square (num_classes (conf_matrix ?m)) (?h ! conf (conf_matrix ?m))"
    by (simp add: square_def)
  have d: "absent (dice_matrix ?m ?h) 1"
    by code_simp
  have n: "num_classes (conf_matrix ?m) = 3" by simp
  from dice_value_defined[OF a b c] obtain mdice dice h' where
    v: "DiceCoefficient_value ?m ?h = Inr ((mdice, dice), h')" "length dice = num_classes (conf_matrix ?m)"
    and nan: "\<forall>c < num_classes (conf_matrix ?m). absent (dice_matrix ?m ?h) c \<longrightarrow> dice ! c = NaN"
    by blast
  from nan d n have "dice ! 1 = NaN" by simp
  with v n have "\<exists>mdice dice h'. DiceCoefficient_value ?m ?h = Inr ((mdice, dice), h')
                   \<and> length dice = 3 \<and> dice ! 1 = NaN"
    by auto
  moreover have "square 3 (?h ! 0)" using c by simp
  ultimately show ?thesis using a d by blast
qed

text \<open>
  C4 as stated fails: the constructor accepts the ignored index 3 for 3 classes, and
  \<^verbatim>\<open>value()\<close> then raises \<^verbatim>\<open>IndexError\<close> on every state of the matrix.
\<close>

theorem dice_value_counterexample:
  "ConfusionMatrixBasedMetric_init 3 True False (PInt 3) []
     = Inr (\<lparr>conf_matrix = \<lparr>num_classes = 3, normalized = False, conf = 0\<rparr>,
             reduced_probs = True, ignore_indices = Some [SInt 3]\<rparr>,
            [[[0, 0, 0], [0, 0, 0], [0, 0, 0]]])
   \<and> DiceCoefficient_value \<lparr>conf_matrix = \<lparr>num_classes = 3, normalized = False, conf = 0\<rparr>,
                  reduced_probs = True, ignore_indices = Some [SInt 3]\<rparr>
        [[[1, 0, 0], [0, 1, 0], [0, 0, 1]]]
     = Inl IndexError"
proof -
  have "ConfusionMatrixBasedMetric_init 3 True False (PInt 3) []
     = Inr (\<lparr>conf_matrix = \<lparr>num_classes = 3, normalized = False, conf = 0\<rparr>,
             reduced_probs = True, ignore_indices = Some [SInt 3]\<rparr>,
            [[[0, 0, 0], [0, 0, 0], [0, 0, 0]]])"
    by (simp add: ConfusionMatrixBasedMetric_init_def cm_init_eq zeros_def numeral_3_eq_3)
  moreover have "DiceCoefficient_value \<lparr>conf_matrix = \<lparr>num_classes = 3, normalized = False, conf = 0\<rparr>,
                  reduced_probs = True, ignore_indices = Some [SInt 3]\<rparr>
        [[[1, 0, 0], [0, 1, 0], [0, 0, 1]]]
     = Inl IndexError"
    by (simp add: DiceCoefficient_value_def ConfusionMatrix_value_def)
  ultimately show ?thesis by blast
qed

section \<open>A perfect prediction\<close>

lemma sum_list_single:
  "(\<Sum>r\<leftarrow>[0..<n]. if r = c then f r else 0) = (if c < n then f c else (0::'a::comm_monoid_add))"
  by (induction n) auto

lemma sum_list_single':
  "(\<Sum>r\<leftarrow>[0..<n]. if c = r then f r else 0) = (if c < n then f c else (0::'a::comm_monoid_add))"
  by (induction n) auto

lemma dice_int_nth:
  assumes "square n M" "c < n"
  shows "dice_int M ! c
         = fdiv (Fin (rat_of_int (sint (2 * (M ! c ! c)))))
             (Fin (rat_of_int (sint (2 * (M ! c ! c)))
                   + rat_of_int ((\<Sum>row\<leftarrow>M. sint (row ! c)) - sint (M ! c ! c))
                   + rat_of_int (sum_list (map sint (M ! c)) - sint (M ! c ! c))))"
proof -
  have l: "length M = n" using assms(1) by (simp add: square_def)
  have "\<And>row. row \<in> set M \<Longrightarrow> c < length row"
    using assms square_rows by fastforce
  then have "map (\<lambda>row. map sint row ! c) M = map (\<lambda>row. sint (row ! c)) M"
    by (intro map_cong refl) simp
  then have "(\<Sum>row\<leftarrow>map (map sint) M. row ! c) = (\<Sum>row\<leftarrow>M. sint (row ! c))"
    by (simp only: map_map comp_def)
  then show ?thesis
    using assms(2) l
    by (simp add: dice_int_def Let_def dice_formula_nth np_diag_def sum_axis0_def
          sum_axis1_def del: of_int_sint)
qed

lemma dice_float_nth:
  assumes "square n F" "c < n"
  shows "dice_float F ! c
         = fdiv (Fin (2 * (F ! c ! c)))
             (Fin (2 * (F ! c ! c) + ((\<Sum>row\<leftarrow>F. row ! c) - F ! c ! c)
                   + (sum_list (F ! c) - F ! c ! c)))"
proof -
  have l: "length F = n" using assms(1) by (simp add: square_def)
  show ?thesis
    using assms(2) l
    by (simp add: dice_float_def Let_def dice_formula_nth np_diag_def sum_axis0_def sum_axis1_def)
qed

lemma double_count_nonzero:
  assumes "0 < k" "k < 2 ^ 31"
  shows "sint (2 * (of_nat k :: 32 word)) \<noteq> 0"
proof -
  have "(2 * of_nat k :: 32 word) = of_nat (2 * k)" by simp
  moreover have "(of_nat (2 * k) :: 32 word) \<noteq> 0"
    using assms by (intro of_nat_neq_0) simp_all
  ultimately show ?thesis by (simp add: signed_eq_0_iff)
qed

lemma square_diag: "square n (map (\<lambda>r. map (\<lambda>c. g r c) [0..<n]) [0..<n])"
  by (simp add: square_def list_all_iff)

lemma dice_int_diag:
  assumes "\<forall>r < n. 0 < k r \<and> k r < 2 ^ 31"
  shows "dice_int (map (\<lambda>r. map (\<lambda>c. if r = c then of_nat (k r) else 0) [0..<n]) [0..<n])
         = replicate n (Fin 1)"
proof -
  let ?D = "map (\<lambda>r. map (\<lambda>c. if r = c then (of_nat (k r) :: 32 word) else 0) [0..<n]) [0..<n]"
  have sq: "square n ?D" by (rule square_diag)
  have "\<forall>c < n. dice_int ?D ! c = Fin 1"
  proof (intro allI impI)
    fix c assume c: "c < n"
    let ?w = "of_nat (k c) :: 32 word"
    have d: "?D ! c ! c = ?w" using c by simp
    have col: "(\<Sum>row\<leftarrow>?D. sint (row ! c)) = sint ?w"
    proof -
      have "map (\<lambda>row. sint (row ! c)) ?D
            = map (\<lambda>r. if r = c then sint (of_nat (k r) :: 32 word) else 0) [0..<n]"
        using c by (simp add: comp_def if_distrib cong: if_cong)
      then show ?thesis using c by (simp only: sum_list_single) simp
    qed
    have row: "sum_list (map sint (?D ! c)) = sint ?w"
    proof -
      have "map sint (?D ! c) = map (\<lambda>r. if c = r then sint (of_nat (k c) :: 32 word) else 0) [0..<n]"
        using c by (simp add: if_distrib cong: if_cong)
      then show ?thesis using c by (simp only: sum_list_single') simp
    qed
    have nz: "rat_of_int (sint (2 * ?w)) \<noteq> 0"
      using double_count_nonzero[of "k c"] assms c by (simp del: of_int_sint)
    have "dice_int ?D ! c
          = fdiv (Fin (rat_of_int (sint (2 * ?w)))) (Fin (rat_of_int (sint (2 * ?w)) + 0 + 0))"
      by (simp only: dice_int_nth[OF sq c] d col row) simp
    then show "dice_int ?D ! c = Fin 1" using nz by (simp del: of_int_sint)
  qed
  moreover have "length (dice_int ?D) = n" by (rule length_dice_int[OF sq])
  ultimately show ?thesis
    by (intro nth_equalityI) simp_all
qed

lemma normalize_rows_diag:
  assumes "\<forall>r < n. 0 < k r \<and> k r < 2 ^ 31"
  shows "normalize_rows (map (\<lambda>r. map (\<lambda>c. if r = c then of_nat (k r) else 0) [0..<n]) [0..<n])
         = map (\<lambda>r. map (\<lambda>c. if r = c then 1 else 0) [0..<n]) [0..<n]"
proof -
  have "\<And>r. r \<in> set [0..<n] \<Longrightarrow>
          (let q = map (\<lambda>w. rat_of_int (sint w))
                     (map (\<lambda>c. if r = c then (of_nat (k r) :: 32 word) else 0) [0..<n]);
               s = max (sum_list q) (1 / 10 ^ 12)
           in map (\<lambda>x. x / s) q)
          = map (\<lambda>c. if r = c then 1 else 0) [0..<n]"
  proof -
    fix r assume "r \<in> set [0..<n]"
    then have r: "r < n" by simp
    with assms have k: "0 < k r" "k r < 2 ^ 31" by simp_all
    have q: "map (\<lambda>w. rat_of_int (sint w))
               (map (\<lambda>c. if r = c then (of_nat (k r) :: 32 word) else 0) [0..<n])
             = map (\<lambda>c. if r = c then rat_of_nat (k r) else 0) [0..<n]"
      using sint_of_nat_small[OF k(2)]
      by (simp add: comp_def if_distrib del: of_int_sint cong: if_cong)
    have s: "sum_list (map (\<lambda>c. if r = c then rat_of_nat (k r) else 0) [0..<n]) = rat_of_nat (k r)"
      using r by (simp only: sum_list_single') simp
    have "(1::rat) \<le> rat_of_nat (k r)" using k(1) by simp
    moreover have "(1::rat) / 10 ^ 12 \<le> 1" by simp
    ultimately have "(1::rat) / 10 ^ 12 \<le> rat_of_nat (k r)" by (rule order.trans[rotated])
    then have m: "max (rat_of_nat (k r)) (1 / 10 ^ 12) = rat_of_nat (k r)"
      by (rule max_absorb1)
    have nz: "rat_of_nat (k r) \<noteq> 0" using k(1) by simp
    show "(let q = map (\<lambda>w. rat_of_int (sint w))
                     (map (\<lambda>c. if r = c then (of_nat (k r) :: 32 word) else 0) [0..<n]);
               s = max (sum_list q) (1 / 10 ^ 12)
           in map (\<lambda>x. x / s) q)
          = map (\<lambda>c. if r = c then 1 else 0) [0..<n]"
      unfolding Let_def q s m using nz by (simp add: comp_def if_distrib cong: if_cong)
  qed
  then show ?thesis
    unfolding normalize_rows_def map_map comp_def by (intro map_cong refl)
qed

lemma dice_float_identity:
  "dice_float (map (\<lambda>r. map (\<lambda>c. if r = c then 1 else 0) [0..<n]) [0..<n]) = replicate n (Fin 1)"
proof -
  let ?I = "map (\<lambda>r. map (\<lambda>c. if r = c then (1::rat) else 0) [0..<n]) [0..<n]"
  have sq: "square n ?I" by (rule square_diag)
  have "\<forall>c < n. dice_float ?I ! c = Fin 1"
  proof (intro allI impI)
    fix c assume c: "c < n"
    have d: "?I ! c ! c = 1" using c by simp
    have col: "(\<Sum>row\<leftarrow>?I. row ! c) = 1"
    proof -
      have "map (\<lambda>row. row ! c) ?I = map (\<lambda>r. if r = c then (1::rat) else 0) [0..<n]"
        using c by (simp add: comp_def)
      then show ?thesis using c by (simp only: sum_list_single) simp
    qed
    have row: "sum_list (?I ! c) = 1"
    proof -
      have "?I ! c = map (\<lambda>r. if c = r then (1::rat) else 0) [0..<n]"
        using c by simp
      then show ?thesis using c by (simp only: sum_list_single') simp
    qed
    show "dice_float ?I ! c = Fin 1"
      by (simp only: dice_float_nth[OF sq c] d col row) simp
  qed
  moreover have "length (dice_float ?I) = n" by (rule length_dice_float[OF sq])
  ultimately show ?thesis
    by (intro nth_equalityI) simp_all
qed

lemma nanmean_ones:
  assumes "0 < n"
  shows "nanmean (replicate n (Fin 1)) = Fin 1"
proof -
  have "foldr fadd (replicate n (Fin 1)) (Fin 0) = Fin (rat_of_nat n)"
    by (induction n) (simp_all add: add.commute)
  then show ?thesis
    using assms by (simp add: nanmean_def Let_def)
qed

lemma hist_counts_same:
  "hist_counts n (map (\<lambda>x. (x, x)) d)
   = map (\<lambda>r. map (\<lambda>c. if r = c then length (filter (\<lambda>x. bin_index n x = Some r) d) else 0)
                  [0..<n]) [0..<n]"
proof -
  have "\<And>r c. length (filter (in_cell n r c) (map (\<lambda>x. (x, x)) d))
              = (if r = c then length (filter (\<lambda>x. bin_index n x = Some r) d) else 0)"
    by (auto simp: filter_map comp_def in_cell_def)
  then show ?thesis by (simp add: hist_counts_def)
qed

lemma bin_index_of_nat: "r < n \<Longrightarrow> bin_index n (rat_of_nat r) = Some r"
  by (simp add: bin_index_eq)

lemma class_count_bounds:
  assumes "r < n" "rat_of_nat r \<in> set d" "length d < 2 ^ 31"
  shows "0 < length (filter (\<lambda>x. bin_index n x = Some r) d)"
    and "length (filter (\<lambda>x. bin_index n x = Some r) d) < 2 ^ 31"
proof -
  have "rat_of_nat r \<in> set (filter (\<lambda>x. bin_index n x = Some r) d)"
    using assms(1,2) by (simp add: bin_index_of_nat)
  then show "0 < length (filter (\<lambda>x. bin_index n x = Some r) d)"
    by (metis length_pos_if_in_set)
  show "length (filter (\<lambda>x. bin_index n x = Some r) d) < 2 ^ 31"
    by (rule le_less_trans[OF length_filter_le assms(3)])
qed

lemma valid_pairs_same:
  assumes "data pred = data target" "\<forall>x \<in> set (data target). valid_label n x"
  shows "valid_pairs n pred target = map (\<lambda>x. (x, x)) (data target)"
proof -
  have "zip (data target) (data pred) = map (\<lambda>x. (x, x)) (data target)"
    by (simp add: assms(1) zip_same_conv_map)
  moreover have "filter (\<lambda>s. valid_label n (fst s)) (map (\<lambda>x. (x, x)) (data target))
                 = map (\<lambda>x. (x, x)) (data target)"
    using assms(2) by (intro filter_True) auto
  ultimately show ?thesis by (simp add: valid_pairs_def)
qed

lemma astype_diag:
  "astype_int32 (map (\<lambda>r. map (\<lambda>c. if r = c then k r else 0) [0..<n]) [0..<n])
   = map (\<lambda>r. map (\<lambda>c. if r = c then of_nat (k r) else 0) [0..<n]) [0..<n]"
  by (simp add: astype_int32_def comp_def if_distrib cong: if_cong)

text \<open>
  C5. A new \<^verbatim>\<open>DiceCoefficient\<close> for label predictions (no ignored class, either setting of
  \<^verbatim>\<open>normalized\<close>), one \<^verbatim>\<open>add\<close> of a prediction equal to the target, in which every label lies
  in \<open>[0, num_classes)\<close> and every class occurs: \<^verbatim>\<open>value()\<close> returns the mean 1 and the Dice
  value 1 for every class. The array has fewer than \<open>2^31\<close> elements, which is where the
  conversion of one call's counts to \<^verbatim>\<open>int32\<close> is defined.
\<close>

theorem perfect_prediction:
  assumes "0 < n"
    and "wf_array target" "shape target \<noteq> []" "length (data target) < 2 ^ 31"
    and "\<forall>x \<in> set (data target). valid_label n x"
    and "\<forall>c < n. rat_of_nat c \<in> set (data target)"
    and "shape pred = shape target" "data pred = data target"
  shows "\<exists>m h h'. ConfusionMatrixBasedMetric_init n True nrm PNone h0 = Inr (m, h)
           \<and> ConfusionMatrixBasedMetric_add m pred target h = Inr h'
           \<and> DiceCoefficient_value m h' = Inr ((Fin 1, replicate n (Fin 1)), h')"
proof -
  let ?cm = "\<lparr>num_classes = n, normalized = nrm, conf = length h0\<rparr>"
  let ?m = "\<lparr>conf_matrix = ?cm, reduced_probs = True, ignore_indices = None\<rparr>"
  let ?h = "h0 @ [zeros n]"
  let ?k = "\<lambda>r. length (filter (\<lambda>x. bin_index n x = Some r) (data target))"
  let ?D = "map (\<lambda>r. map (\<lambda>c. if r = c then (of_nat (?k r) :: 32 word) else 0) [0..<n]) [0..<n]"
  let ?h' = "h0 @ [?D]"
  have init: "ConfusionMatrixBasedMetric_init n True nrm PNone h0 = Inr (?m, ?h)"
    by (simp add: ConfusionMatrixBasedMetric_init_def cm_init_eq)
  have wfp: "wf_array pred"
    using assms(2,7,8) by (simp add: wf_array_def)
  have n: "0 < num_classes ?cm" using assms(1) by simp
  have H: "astype_int32 (hist_counts n (valid_pairs n pred target)) = ?D"
    by (simp only: valid_pairs_same[OF assms(8,5)] hist_counts_same astype_diag)
  have "mat_add (zeros n) (astype_int32 (hist_counts n (valid_pairs n pred target)))
        = astype_int32 (hist_counts n ([] @ valid_pairs n pred target))"
    by (simp only: astype_hist_append astype_hist_Nil)
  then have sum: "mat_add (zeros n) (astype_int32 (hist_counts n (valid_pairs n pred target))) = ?D"
    by (simp only: append_Nil H)
  have "ConfusionMatrix_add ?cm pred target ?h
        = Inr (?h[conf ?cm := mat_add (?h ! conf ?cm)
                 (astype_int32 (hist_counts (num_classes ?cm) (valid_pairs (num_classes ?cm) pred target)))])"
    by (rule cm_add_same_shape[OF wfp assms(2,7,3) n])
  then have "ConfusionMatrix_add ?cm pred target ?h = Inr ?h'"
    by (simp add: sum)
  then have add: "ConfusionMatrixBasedMetric_add ?m pred target ?h = Inr ?h'"
    by (simp add: ConfusionMatrixBasedMetric_add_def)
  have k: "\<forall>r < n. 0 < ?k r \<and> ?k r < 2 ^ 31"
    using class_count_bounds[OF _ _ assms(4)] assms(6) by blast
  have stored: "?h' ! conf ?cm = ?D" by simp
  have dice: "DiceCoefficient_value ?m ?h' = Inr ((Fin 1, replicate n (Fin 1)), ?h')"
  proof (cases nrm)
    case True
    have "dice_float (normalize_rows ?D) = replicate n (Fin 1)"
      by (simp only: normalize_rows_diag[OF k] dice_float_identity)
    then show ?thesis
      using True by (simp add: DiceCoefficient_value_def ConfusionMatrix_value_def Let_def nanmean_ones[OF assms(1)])
  next
    case False
    have "dice_int ?D = replicate n (Fin 1)"
      by (rule dice_int_diag[OF k])
    then show ?thesis
      using False by (simp add: DiceCoefficient_value_def ConfusionMatrix_value_def Let_def nanmean_ones[OF assms(1)])
  qed
  from init add dice show ?thesis by blast
qed

theorem perfect_prediction_witness:
  "wf_array (vec [0, 1, 2, 1]) \<and> shape (vec [0, 1, 2, 1]) \<noteq> []
   \<and> length (data (vec [0, 1, 2, 1])) < 2 ^ 31
   \<and> list_all (valid_label 3) (data (vec [0, 1, 2, 1]))
   \<and> list_all (\<lambda>c. rat_of_nat c \<in> set (data (vec [0, 1, 2, 1]))) [0..<3]
   \<and> (\<exists>m h h'. ConfusionMatrixBasedMetric_init 3 True False PNone [] = Inr (m, h)
           \<and> ConfusionMatrixBasedMetric_add m (tensor [4] [0, 1, 2, 1]) (vec [0, 1, 2, 1]) h = Inr h'
           \<and> DiceCoefficient_value m h' = Inr ((Fin 1, [Fin 1, Fin 1, Fin 1]), h'))"
proof -
  let ?t = "vec [0, 1, 2, 1]" and ?p = "tensor [4] [0, 1, 2, 1]"
  have a: "(0::nat) < 3" "wf_array ?t" "shape ?t \<noteq> []" "length (data ?t) < 2 ^ 31"
    by (simp_all add: vec_def wf_array_def)
  have b: "\<forall>x \<in> set (data ?t). valid_label 3 x"
    by (simp add: vec_def valid_label_def)
  have c: "\<forall>c < 3. rat_of_nat c \<in> set (data ?t)"
  proof (intro allI impI)
    fix c :: nat assume "c < 3"
    then have "c = 0 \<or> c = 1 \<or> c = 2" by linarith
    then show "rat_of_nat c \<in> set (data ?t)" by (auto simp: vec_def)
  qed
  have d: "shape ?p = shape ?t" "data ?p = data ?t"
    by (simp_all add: vec_def tensor_def)
  have r: "replicate 3 (Fin 1) = [Fin 1, Fin 1, Fin 1]"
    by (simp add: numeral_3_eq_3)
  from perfect_prediction[OF a b c d, of False "[]"]
  have "\<exists>m h h'. ConfusionMatrixBasedMetric_init 3 True False PNone [] = Inr (m, h)
           \<and> ConfusionMatrixBasedMetric_add m ?p ?t h = Inr h'
           \<and> DiceCoefficient_value m h' = Inr ((Fin 1, [Fin 1, Fin 1, Fin 1]), h')"
    by (simp only: r)
  moreover have "list_all (valid_label 3) (data ?t)"
    using b by (simp only: list_all_iff)
  moreover have "list_all (\<lambda>c. rat_of_nat c \<in> set (data ?t)) [0..<3]"
    using c by (simp add: list_all_iff)
  ultimately show ?thesis using a by blast
qed

section \<open>The normalized matrix, in exact arithmetic\<close>

lemma sum_list_divide: "(\<Sum>x\<leftarrow>xs. x / s) = sum_list xs / (s::rat)"
  by (induction xs) (simp_all add: add_divide_distrib)

text \<open>
  Rounding apart, a row of non-negative counts with a nonzero one is divided by its sum and
  then sums to 1, and a row of zeros stays a row of zeros.
\<close>

lemma normalize_rows_exact:
  assumes "r < length m"
  shows "(\<forall>w \<in> set (m ! r). 0 \<le> sint w) \<and> (\<exists>w \<in> set (m ! r). w \<noteq> 0)
           \<longrightarrow> sum_list (normalize_rows m ! r) = 1"
    and "(\<forall>w \<in> set (m ! r). w = 0) \<longrightarrow> (\<forall>x \<in> set (normalize_rows m ! r). x = 0)"
proof -
  let ?q = "map (\<lambda>w. rat_of_int (sint w)) (m ! r)"
  let ?s = "max (sum_list ?q) (1 / 10 ^ 12)"
  have row: "normalize_rows m ! r = map (\<lambda>x. x / ?s) ?q"
    using assms by (simp add: normalize_rows_def Let_def del: of_int_sint)
  show "(\<forall>w \<in> set (m ! r). 0 \<le> sint w) \<and> (\<exists>w \<in> set (m ! r). w \<noteq> 0)
           \<longrightarrow> sum_list (normalize_rows m ! r) = 1"
  proof
    assume h: "(\<forall>w \<in> set (m ! r). 0 \<le> sint w) \<and> (\<exists>w \<in> set (m ! r). w \<noteq> 0)"
    then obtain w where w: "w \<in> set (m ! r)" "w \<noteq> 0" by blast
    with h have "0 < sint w"
      by (metis signed_eq_0_iff order_le_less)
    then have "1 \<le> sint w" by simp
    moreover have "sint w \<le> sum_list (map sint (m ! r))"
      using h w(1) by (intro member_le_sum_list) auto
    ultimately have "1 \<le> sum_list (map sint (m ! r))" by simp
    then have "(1::rat) \<le> rat_of_int (sum_list (map sint (m ! r)))" by simp
    also have "rat_of_int (sum_list (map sint (m ! r))) = sum_list ?q"
      by (simp only: sum_list_of_int[symmetric] map_map comp_def)
    finally have one: "1 \<le> sum_list ?q" .
    have "(1::rat) / 10 ^ 12 \<le> 1" by simp
    with one have "(1::rat) / 10 ^ 12 \<le> sum_list ?q" by (rule order.trans[rotated])
    then have "?s = sum_list ?q" by (rule max_absorb1)
    moreover have "sum_list ?q \<noteq> 0" using one by simp
    ultimately show "sum_list (normalize_rows m ! r) = 1"
      by (simp only: row sum_list_divide) simp
  qed
  show "(\<forall>w \<in> set (m ! r). w = 0) \<longrightarrow> (\<forall>x \<in> set (normalize_rows m ! r). x = 0)"
    by (auto simp: row)
qed

text \<open>
  Two calls with \<open>k\<close> pixels of class 0 each, predicted correctly, on a new matrix with one
  class, whatever \<^verbatim>\<open>normalized\<close> is.
\<close>

lemma run_adds_constant:
  "run_adds \<lparr>num_classes = 1, normalized = b, conf = 0\<rparr>
     [(vec (replicate k 0), vec (replicate k 0)), (vec (replicate k 0), vec (replicate k 0))]
     [[[0]]]
   = Inr [[[of_nat (k + k)]]]"
proof -
  let ?z = "vec (replicate k 0)"
  let ?cm = "\<lparr>num_classes = 1, normalized = b, conf = 0\<rparr>"
  have sh: "\<forall>(p, t) \<in> set [(?z, ?z), (?z, ?z)].
              wf_array p \<and> wf_array t \<and> shape p = shape t \<and> shape t \<noteq> []"
    by (simp add: vec_def wf_array_def)
  have vp: "valid_pairs 1 ?z ?z = replicate k (0, 0)"
    by (simp add: valid_pairs_def vec_def zip_replicate valid_label_def)
  have cell: "in_cell (Suc 0) 0 0 (0, 0)"
    by (simp add: in_cell_def bin_index_eq)
  have "samples 1 [(?z, ?z), (?z, ?z)] = valid_pairs 1 ?z ?z @ valid_pairs 1 ?z ?z"
    by (simp add: samples_same_shape[OF sh] del: One_nat_def)
  then have "samples 1 [(?z, ?z), (?z, ?z)] = replicate k (0, 0) @ replicate k (0, 0)"
    by (simp only: vp)
  then have hc: "hist_counts 1 (samples 1 [(?z, ?z), (?z, ?z)]) = [[k + k]]"
    by (simp add: hist_counts_def cell)
  have ok: "\<forall>(p, t) \<in> set [(?z, ?z), (?z, ?z)]. \<exists>s. add_sample (num_classes ?cm) p t = Inr s"
    using calls_same_shape_ok[OF sh, of 1] by simp
  have "run_adds ?cm [(?z, ?z), (?z, ?z)] [[[0]]]
        = Inr ([[[0]]][conf ?cm := astype_int32 (hist_counts (num_classes ?cm)
                                      ([] @ samples (num_classes ?cm) [(?z, ?z), (?z, ?z)]))])"
    using ok by (rule run_adds_ok) (simp_all add: astype_hist_Nil zeros_def)
  moreover have "hist_counts (Suc 0) (samples (Suc 0) [(?z, ?z), (?z, ?z)]) = [[k + k]]"
    using hc by simp
  ultimately show ?thesis
    by (simp add: astype_int32_def)
qed

text \<open>
  On a new matrix, no count is negative after calls with arrays of equal shape in which fewer
  than \<open>2^31\<close> pairs are counted.
\<close>

lemma accumulated_cells_nonneg:
  assumes "\<forall>(p, t) \<in> set calls. wf_array p \<and> wf_array t \<and> shape p = shape t \<and> shape t \<noteq> []"
    and "0 < n"
    and "length (filter (counted n) (all_pairs calls)) < 2 ^ 31"
  shows "\<exists>m. accumulate n calls = Inr m \<and> (\<forall>row \<in> set m. \<forall>w \<in> set row. 0 \<le> sint w)"
proof -
  let ?m = "hist_counts n (samples n calls)"
  have acc: "accumulate n calls = Inr (astype_int32 ?m)"
    using calls_same_shape_ok[OF assms(1,2)] by (simp add: accumulate_iff)
  have total: "sum_list (concat ?m) = length (filter (counted n) (all_pairs calls))"
    by (simp only: sum_hist_counts counted_samples[OF assms(1,2)])
  have small: "k < 2 ^ 31" if "k \<in> set (concat ?m)" for k
  proof -
    have "k \<le> sum_list (concat ?m)" using that by (intro member_le_sum_list) simp_all
    with total assms(3) show ?thesis by simp
  qed
  have "0 \<le> sint w" if "row \<in> set (astype_int32 ?m)" "w \<in> set row" for row w
  proof -
    from that(1) obtain ks where ks: "ks \<in> set ?m" "row = map of_nat ks"
      by (auto simp: astype_int32_def)
    with that(2) obtain k where k0: "k \<in> set ks" "w = of_nat k"
      by auto
    with ks(1) have k: "k \<in> set (concat ?m)" "w = of_nat k"
      by auto
    then have "sint w = int k" using small[OF k(1)] by (simp add: sint_of_nat_small)
    then show ?thesis by simp
  qed
  with acc show ?thesis by blast
qed

text \<open>
  C8, as the code has it. With \<^verbatim>\<open>normalized\<close> true, \<^verbatim>\<open>value()\<close> leaves the stored counts as they
  are and returns a new matrix in which each row of the counts, read as signed, is divided by
  the larger of its sum and \<^verbatim>\<open>1e-12\<close>. Rounding apart, a row in which no count is negative (no
  \<^verbatim>\<open>int32\<close> count has wrapped around) and some count is not 0 sums to 1, and a row of zeros
  stays a row of zeros.
\<close>

theorem normalized_value_rows:
  assumes "normalized cm" "r < length (h ! conf cm)"
  shows "\<exists>F. ConfusionMatrix_value cm h = (FloatCopy F, h)
             \<and> length F = length (h ! conf cm)
             \<and> F ! r = map (\<lambda>w. rat_of_int (sint w)
                                 / max (\<Sum>v\<leftarrow>h ! conf cm ! r. rat_of_int (sint v)) (1 / 10 ^ 12))
                         (h ! conf cm ! r)
             \<and> ((\<forall>w \<in> set (h ! conf cm ! r). 0 \<le> sint w) \<and> (\<exists>w \<in> set (h ! conf cm ! r). w \<noteq> 0)
                  \<longrightarrow> sum_list (F ! r) = 1)
             \<and> ((\<forall>w \<in> set (h ! conf cm ! r). w = 0) \<longrightarrow> (\<forall>x \<in> set (F ! r). x = 0))"
proof -
  let ?m = "h ! conf cm"
  have "ConfusionMatrix_value cm h = (FloatCopy (normalize_rows ?m), h)"
    using assms(1) by (simp add: ConfusionMatrix_value_def)
  moreover have "length (normalize_rows ?m) = length ?m"
    by (simp add: normalize_rows_def)
  moreover have "normalize_rows ?m ! r
                 = map (\<lambda>w. rat_of_int (sint w)
                              / max (\<Sum>v\<leftarrow>?m ! r. rat_of_int (sint v)) (1 / 10 ^ 12)) (?m ! r)"
    using assms(2) by (simp add: normalize_rows_def Let_def comp_def del: of_int_sint)
  ultimately show ?thesis
    using normalize_rows_exact[OF assms(2)] by blast
qed

theorem normalized_value_rows_witness:
  "normalized \<lparr>num_classes = 2, normalized = True, conf = 0\<rparr>
   \<and> 1 < length ([[[1, 3], [0, 0 :: 32 word]]] ! conf \<lparr>num_classes = 2, normalized = True, conf = 0\<rparr>)
   \<and> list_all (\<lambda>w. 0 \<le> sint w) [1, 3 :: 32 word] \<and> (1 :: 32 word) \<noteq> 0
   \<and> (\<exists>F. ConfusionMatrix_value \<lparr>num_classes = 2, normalized = True, conf = 0\<rparr>
             [[[1, 3], [0, 0]]] = (FloatCopy F, [[[1, 3], [0, 0]]])
          \<and> F ! 0 = [1 / 4, 3 / 4] \<and> sum_list (F ! 0) = 1
          \<and> F ! 1 = [0, 0] \<and> list_all (\<lambda>x. x = 0) (F ! 1))"
proof -
  let ?cm = "\<lparr>num_classes = 2, normalized = True, conf = 0\<rparr>"
  let ?h = "[[[1, 3], [0, 0 :: 32 word]]]"
  have a: "normalized ?cm" by simp
  have b0: "0 < length (?h ! conf ?cm)" and b1: "1 < length (?h ! conf ?cm)" by simp_all
  have c: "list_all (\<lambda>w. 0 \<le> sint w) [1, 3 :: 32 word]" "(1 :: 32 word) \<noteq> 0" by simp_all
  obtain F where F: "ConfusionMatrix_value ?cm ?h = (FloatCopy F, ?h)"
    and F0: "F ! 0 = map (\<lambda>w. rat_of_int (sint w)
                                 / max (\<Sum>v\<leftarrow>?h ! conf ?cm ! 0. rat_of_int (sint v)) (1 / 10 ^ 12))
                         (?h ! conf ?cm ! 0)"
    and S0: "(\<forall>w \<in> set (?h ! conf ?cm ! 0). 0 \<le> sint w) \<and> (\<exists>w \<in> set (?h ! conf ?cm ! 0). w \<noteq> 0)
                  \<longrightarrow> sum_list (F ! 0) = 1"
    using normalized_value_rows[OF a b0] by blast
  obtain G where G: "ConfusionMatrix_value ?cm ?h = (FloatCopy G, ?h)"
    and G1: "G ! 1 = map (\<lambda>w. rat_of_int (sint w)
                                 / max (\<Sum>v\<leftarrow>?h ! conf ?cm ! 1. rat_of_int (sint v)) (1 / 10 ^ 12))
                         (?h ! conf ?cm ! 1)"
    and Z1: "(\<forall>w \<in> set (?h ! conf ?cm ! 1). w = 0) \<longrightarrow> (\<forall>x \<in> set (G ! 1). x = 0)"
    using normalized_value_rows[OF a b1] by blast
  from F G have FG: "G = F" by simp
  have "F ! 0 = [1 / 4, 3 / 4]" using F0 by simp
  moreover have "sum_list (F ! 0) = 1" using S0 by simp
  moreover have "F ! 1 = [0, 0]" using G1 FG by simp
  moreover have "list_all (\<lambda>x. x = 0) (F ! 1)" using Z1 FG by (simp add: list_all_iff)
  ultimately show ?thesis using F a b1 c by blast
qed

text \<open>
  C8 as stated fails at a state that \<^verbatim>\<open>add\<close> reaches: after two calls with \<open>2^30\<close> pixels of
  class 0 each, the only count is \<open>-2^31\<close>, which is not 0, and the row is divided by
  \<^verbatim>\<open>1e-12\<close>: it does not sum to 1.
\<close>

theorem normalized_value_counterexample:
  "ConfusionMatrix_init 1 True [] = (\<lparr>num_classes = 1, normalized = True, conf = 0\<rparr>, [[[0]]])
   \<and> run_adds \<lparr>num_classes = 1, normalized = True, conf = 0\<rparr>
        [(vec (replicate (2 ^ 30) 0), vec (replicate (2 ^ 30) 0)),
         (vec (replicate (2 ^ 30) 0), vec (replicate (2 ^ 30) 0))] [[[0]]] = Inr [[[2 ^ 31]]]
   \<and> (2 ^ 31 :: 32 word) \<noteq> 0
   \<and> ConfusionMatrix_value \<lparr>num_classes = 1, normalized = True, conf = 0\<rparr> [[[2 ^ 31]]]
       = (FloatCopy [[- (2 ^ 31 * 10 ^ 12)]], [[[2 ^ 31]]])
   \<and> sum_list [- (2 ^ 31 * 10 ^ 12) :: rat] \<noteq> 1"
proof -
  have i: "ConfusionMatrix_init 1 True []
           = (\<lparr>num_classes = 1, normalized = True, conf = 0\<rparr>, [[[0]]])"
    by (simp add: cm_init_eq zeros_def)
  have "(of_nat (2 ^ 30 + 2 ^ 30) :: 32 word) = 2 ^ 31" by simp
  then have r: "run_adds \<lparr>num_classes = 1, normalized = True, conf = 0\<rparr>
        [(vec (replicate (2 ^ 30) 0), vec (replicate (2 ^ 30) 0)),
         (vec (replicate (2 ^ 30) 0), vec (replicate (2 ^ 30) 0))] [[[0]]] = Inr [[[2 ^ 31]]]"
    by (simp only: run_adds_constant)
  have s: "sint (2 ^ 31 :: 32 word) = - (2 ^ 31)" by simp
  have v: "ConfusionMatrix_value \<lparr>num_classes = 1, normalized = True, conf = 0\<rparr> [[[2 ^ 31]]]
       = (FloatCopy [[- (2 ^ 31 * 10 ^ 12)]], [[[2 ^ 31]]])"
    by (simp add: ConfusionMatrix_value_def normalize_rows_def s del: of_int_sint)
  have n: "(2 ^ 31 :: 32 word) \<noteq> 0" by simp
  from i r n v show ?thesis by simp
qed

section \<open>Splitting the pixels of one call\<close>

text \<open>
  The element-wise sum also merges the parts of one call: two 1-dimensional arrays cut at
  the same position give two calls whose matrices add up to the matrix of the uncut call.
\<close>

lemma merge_of_split_call:
  assumes "length p1 = length t1" "length p2 = length t2" "0 < n"
  shows "\<exists>m1 m2. accumulate n [(vec p1, vec t1)] = Inr m1
           \<and> accumulate n [(vec p2, vec t2)] = Inr m2
           \<and> accumulate n [(vec (p1 @ p2), vec (t1 @ t2))] = Inr (mat_add m1 m2)"
proof -
  have ok: "\<And>p t. length p = length t \<Longrightarrow>
              \<forall>(a, b) \<in> set [(vec p, vec t)]. wf_array a \<and> wf_array b \<and> shape a = shape b \<and> shape b \<noteq> []"
    by (simp add: vec_def wf_array_def)
  have s: "\<And>p t. length p = length t \<Longrightarrow> samples n [(vec p, vec t)] = valid_pairs n (vec p) (vec t)"
    using samples_same_shape[OF ok assms(3)] by simp
  have acc: "\<And>p t. length p = length t \<Longrightarrow>
               accumulate n [(vec p, vec t)]
               = Inr (astype_int32 (hist_counts n (valid_pairs n (vec p) (vec t))))"
    using calls_same_shape_ok[OF ok assms(3)] by (simp add: accumulate_iff s)
  have l: "length (p1 @ p2) = length (t1 @ t2)" using assms(1,2) by simp
  have "valid_pairs n (vec (p1 @ p2)) (vec (t1 @ t2))
        = valid_pairs n (vec p1) (vec t1) @ valid_pairs n (vec p2) (vec t2)"
    using assms(1) by (simp add: valid_pairs_def vec_def)
  then have "astype_int32 (hist_counts n (valid_pairs n (vec (p1 @ p2)) (vec (t1 @ t2))))
        = mat_add (astype_int32 (hist_counts n (valid_pairs n (vec p1) (vec t1))))
                  (astype_int32 (hist_counts n (valid_pairs n (vec p2) (vec t2))))"
    by (simp only: astype_hist_append)
  then show ?thesis
    using acc[OF assms(1)] acc[OF assms(2)] acc[OF l] by simp
qed

end
